theory Spec2Isabelle
  imports Main "HOL-Library.Sublist"
begin

text \<open>
  The interview engine of \<open>interview_engine.py\<close> with its log (\<open>logger.py\<close>), and the
  handling of the model's replies in \<open>agents.py\<close>. The engine is a record that every
  operation takes and returns; the agents it is constructed with are parameters; an
  exception is the left summand of a result.
\<close>

section \<open>Strings\<close>

text \<open>
  A Python \<open>str\<close> is modelled as a \<open>string\<close> holding its UTF-8 encoding, so the
  Cyrillic literals of the source are lists of bytes. Operations of the source that count
  or classify characters (\<open>raw[:300]\<close>, \<open>strip\<close>, \<open>lower\<close>) are written on
  that encoding.
\<close>

definition is_cont :: "char \<Rightarrow> bool" where
  \<comment> \<open>a UTF-8 continuation byte, i.e. not the first byte of a character\<close>
  "is_cont c = (128 \<le> (of_char c :: nat) \<and> (of_char c :: nat) < 192)"

fun take_chars :: "nat \<Rightarrow> string \<Rightarrow> string" where
  \<comment> \<open>\<open>s[:n]\<close>: the first \<open>n\<close> characters (code points) of \<open>s\<close>\<close>
  "take_chars n [] = []"
| "take_chars n (c # cs) =
     (if is_cont c then c # take_chars n cs
      else (case n of 0 \<Rightarrow> [] | Suc m \<Rightarrow> c # take_chars m cs))"

definition ascii_space :: "char \<Rightarrow> bool" where
  \<comment> \<open>the one-byte characters for which \<open>str.isspace\<close> holds\<close>
  "ascii_space c = ((9 \<le> (of_char c :: nat) \<and> (of_char c :: nat) \<le> 13)
                    \<or> (28 \<le> (of_char c :: nat) \<and> (of_char c :: nat) \<le> 32))"

definition wide_spaces :: "string list" where
  \<comment> \<open>the other whitespace characters of Python, in UTF-8: U+0085, U+00A0, U+1680,
      U+2000 to U+200A, U+2028, U+2029, U+202F, U+205F, U+3000\<close>
  "wide_spaces =
     [[CHR 0xC2, CHR 0x85], [CHR 0xC2, CHR 0xA0], [CHR 0xE1, CHR 0x9A, CHR 0x80],
      [CHR 0xE2, CHR 0x80, CHR 0x80], [CHR 0xE2, CHR 0x80, CHR 0x81],
      [CHR 0xE2, CHR 0x80, CHR 0x82], [CHR 0xE2, CHR 0x80, CHR 0x83],
      [CHR 0xE2, CHR 0x80, CHR 0x84], [CHR 0xE2, CHR 0x80, CHR 0x85],
      [CHR 0xE2, CHR 0x80, CHR 0x86], [CHR 0xE2, CHR 0x80, CHR 0x87],
      [CHR 0xE2, CHR 0x80, CHR 0x88], [CHR 0xE2, CHR 0x80, CHR 0x89],
      [CHR 0xE2, CHR 0x80, CHR 0x8A], [CHR 0xE2, CHR 0x80, CHR 0xA8],
      [CHR 0xE2, CHR 0x80, CHR 0xA9], [CHR 0xE2, CHR 0x80, CHR 0xAF],
      [CHR 0xE2, CHR 0x81, CHR 0x9F], [CHR 0xE3, CHR 0x80, CHR 0x80]]"

fun lstrip :: "string \<Rightarrow> string" where
  "lstrip [] = []"
| "lstrip (c # cs) =
     (if ascii_space c then lstrip cs
      else (case cs of
              d # ds \<Rightarrow>
                (if [c, d] \<in> set wide_spaces then lstrip ds
                 else (case ds of
                         f # fs \<Rightarrow> (if [c, d, f] \<in> set wide_spaces then lstrip fs else c # cs)
                       | [] \<Rightarrow> c # cs))
            | [] \<Rightarrow> c # cs))"

fun rstrip_rev :: "string \<Rightarrow> string" where
  \<comment> \<open>\<open>lstrip\<close> on the reversed string: the bytes of a character come last byte first\<close>
  "rstrip_rev [] = []"
| "rstrip_rev (c # cs) =
     (if ascii_space c then rstrip_rev cs
      else (case cs of
              d # ds \<Rightarrow>
                (if [d, c] \<in> set wide_spaces then rstrip_rev ds
                 else (case ds of
                         f # fs \<Rightarrow> (if [f, d, c] \<in> set wide_spaces then rstrip_rev fs else c # cs)
                       | [] \<Rightarrow> c # cs))
            | [] \<Rightarrow> c # cs))"

definition strip :: "string \<Rightarrow> string" where
  "strip s = rev (rstrip_rev (rev (lstrip s)))"

fun find_char :: "char \<Rightarrow> string \<Rightarrow> int" where
  \<comment> \<open>\<open>s.find(c)\<close> for a one-character \<open>c\<close>: the first offset, or -1\<close>
  "find_char c [] = -1"
| "find_char c (x # xs) =
     (if x = c then 0 else (let r = find_char c xs in if r = -1 then -1 else r + 1))"

definition rfind_char :: "char \<Rightarrow> string \<Rightarrow> int" where
  \<comment> \<open>\<open>s.rfind(c)\<close>: the last offset, or -1\<close>
  "rfind_char c s =
     (let r = find_char c (rev s) in if r = -1 then -1 else int (length s) - 1 - r)"

definition slice :: "int \<Rightarrow> int \<Rightarrow> 'a list \<Rightarrow> 'a list" where
  \<comment> \<open>\<open>s[a:b]\<close> for \<open>0 \<le> a\<close> and \<open>0 \<le> b\<close>, the only case the source uses\<close>
  "slice a b s = take (nat b - nat a) (drop (nat a) s)"

definition last_n :: "nat \<Rightarrow> 'a list \<Rightarrow> 'a list" where
  \<comment> \<open>\<open>xs[-n:]\<close> for \<open>n > 0\<close>: the last \<open>n\<close> entries, all of them when there are fewer\<close>
  "last_n n xs = drop (length xs - n) xs"

fun contains_str :: "string \<Rightarrow> string \<Rightarrow> bool" where
  \<comment> \<open>\<open>needle in s\<close> on strings\<close>
  "contains_str needle [] = (needle = [])"
| "contains_str needle (c # cs) = (prefix needle (c # cs) \<or> contains_str needle cs)"

definition lower_ascii :: "char \<Rightarrow> char" where
  "lower_ascii c =
     (if 65 \<le> (of_char c :: nat) \<and> (of_char c :: nat) \<le> 90
      then char_of ((of_char c :: nat) + 32) else c)"

fun lower :: "string \<Rightarrow> string" where
  \<comment> \<open>\<open>s.lower()\<close> on the letters the guard looks for: ASCII and the Cyrillic capitals
      U+0400 to U+042F; every other character is kept\<close>
  "lower [] = []"
| "lower [c] = [lower_ascii c]"
| "lower (c # d # cs) =
     (if c = CHR 0xD0 \<and> 0x90 \<le> (of_char d :: nat) \<and> (of_char d :: nat) \<le> 0x9F
        then CHR 0xD0 # char_of ((of_char d :: nat) + 0x20) # lower cs
      else if c = CHR 0xD0 \<and> 0xA0 \<le> (of_char d :: nat) \<and> (of_char d :: nat) \<le> 0xAF
        then CHR 0xD1 # char_of ((of_char d :: nat) - 0x20) # lower cs
      else if c = CHR 0xD0 \<and> 0x80 \<le> (of_char d :: nat) \<and> (of_char d :: nat) \<le> 0x8F
        then CHR 0xD1 # char_of ((of_char d :: nat) + 0x10) # lower cs
      else lower_ascii c # lower (d # cs))"

function str_nat :: "nat \<Rightarrow> string" where
  "str_nat n =
     (if n < 10 then [char_of (48 + n)] else str_nat (n div 10) @ [char_of (48 + n mod 10)])"
  by pat_completeness auto
termination
  by (relation "measure id") auto

definition str_int :: "int \<Rightarrow> string" where
  \<comment> \<open>\<open>str(i)\<close> as an f-string prints it\<close>
  "str_int i = (if i < 0 then CHR ''-'' # str_nat (nat (- i)) else str_nat (nat i))"

definition str_bool :: "bool \<Rightarrow> string" where
  "str_bool b = (if b then ''True'' else ''False'')"

fun index_of :: "'a list \<Rightarrow> 'a \<Rightarrow> nat option" where
  \<comment> \<open>\<open>xs.index(x)\<close>: the first offset of \<open>x\<close>; \<open>None\<close> where Python raises ValueError\<close>
  "index_of [] x = None"
| "index_of (y # ys) x = (if y = x then Some 0 else map_option Suc (index_of ys x))"

section \<open>Data model\<close>

datatype error = TransportError | JSONDecodeError | ValidationError | IndexError | ValueError

datatype Difficulty = Easy | Medium | Hard

datatype Quality = Good | Partial | Poor | Unknown

datatype Role = User | Assistant

type_synonym message = "Role \<times> string"

definition str_difficulty :: "Difficulty \<Rightarrow> string" where
  "str_difficulty d = (case d of Easy \<Rightarrow> ''easy'' | Medium \<Rightarrow> ''medium'' | Hard \<Rightarrow> ''hard'')"

definition str_quality :: "Quality \<Rightarrow> string" where
  "str_quality q =
     (case q of Good \<Rightarrow> ''good'' | Partial \<Rightarrow> ''partial'' | Poor \<Rightarrow> ''poor''
      | Unknown \<Rightarrow> ''unknown'')"

record TopicPlan =
  topics :: "string list"

record ObserverOutput =
  detected_offtopic :: bool
  detected_hallucination :: bool
  answer_quality :: Quality
  score_0_100 :: int
  next_difficulty :: Difficulty
  next_topic :: string
  intent :: string
  should_move_on :: bool
  need_hint :: bool
  acknowledge :: string
  "notes" :: string

record GeneratedQuestion =
  question_text :: string
  hint :: string
  ideal_answer_short :: string

datatype Grade = Junior | Middle | Senior

datatype Recommendation = Hire | NoHire | StrongHire

datatype Level = Low | Mid | High

record FinalFeedback =
  grade :: Grade
  hiring_recommendation :: Recommendation
  confidence_score_0_100 :: int
  confirmed_skills :: "string list"
  knowledge_gaps :: "string list"
  corrections :: "string list"
  clarity :: Level
  honesty :: Level
  engagement :: Level
  roadmap :: "string list"

record TurnLog =
  log_turn_id :: nat
  log_topic :: string
  log_difficulty :: Difficulty
  log_score_0_100 :: int
  log_ideal_answer_short :: string
  log_agent_visible_message :: string
  log_user_message :: string
  log_internal_thoughts :: string

record InterviewLogger =
  logger_participant_name :: string
  turns :: "TurnLog list"
  final_feedback :: "FinalFeedback option"

text \<open>The \<open>state\<close> dictionary of the engine: its five slots.\<close>

record state_slots =
  last_topic :: "string option"
  last_intent :: "string option"
  topic_index :: nat
  streak_good :: nat
  streak_poor :: nat

record engine =
  position :: string
  target_grade :: string
  experience :: string
  participant_name :: string
  lang :: string
  max_regen_attempts :: int
  logger :: InterviewLogger
  turn_id :: nat
  history :: "message list"
  state :: state_slots
  topic_plan :: "string list"
  current_topic :: string
  difficulty :: Difficulty
  asked_questions_text :: "string list"
  asked_topics :: "string list"

section \<open>The collaborators\<close>

text \<open>
  The five agents are objects handed to the engine at construction; each of their methods
  ends in a call of the language model. The engine is modelled for arbitrary agents: a
  method takes its keyword arguments as a request record and a state \<open>'w\<close> of the outside
  world, and returns the new world with either its result or the exception it raised.
\<close>

record plan_request =
  p_position :: string
  p_grade :: string
  p_experience :: string
  p_lang :: string

text \<open>
  The entries that a call adds to the \<open>state\<close> dictionary it passes to the observer:
  those of \<open>step\<close>, or those of the topic guard (whose \<open>mode\<close> is \<open>topic_guard\<close>).
\<close>

datatype state_extra =
  TurnState (x_asked_topics: "string list") (x_asked_questions_sample: "string list")
| GuardState (x_topic: string) (x_question: string)

record obs_request =
  o_position :: string
  o_grade :: string
  o_experience :: string
  o_history :: "message list"
  o_last_user :: string
  o_state :: state_slots
  o_state_extra :: state_extra
  o_current_topic :: string
  o_current_difficulty :: Difficulty
  o_topic_plan :: "string list"

record gen_request =
  g_position :: string
  g_grade :: string
  g_experience :: string
  g_topic :: string
  g_difficulty :: Difficulty
  g_intent :: string
  g_need_hint :: bool
  avoid_questions :: "string list"
  g_lang :: string

record render_request =
  r_history :: "message list"
  r_observer_plan :: ObserverOutput
  r_last_user :: string
  r_question_text :: string
  r_hint :: string

record feedback_request =
  f_position :: string
  f_target_grade :: string
  f_experience :: string
  f_turns :: "TurnLog list"
  f_transcript :: "message list"

record 'w agents =
  planner :: "plan_request \<Rightarrow> 'w \<Rightarrow> (error + TopicPlan) \<times> 'w"
  observer :: "obs_request \<Rightarrow> 'w \<Rightarrow> (error + ObserverOutput) \<times> 'w"
  qgen :: "gen_request \<Rightarrow> 'w \<Rightarrow> (error + GeneratedQuestion) \<times> 'w"
  interviewer :: "render_request \<Rightarrow> 'w \<Rightarrow> (error + string) \<times> 'w"
  hiring_manager :: "feedback_request \<Rightarrow> 'w \<Rightarrow> (error + FinalFeedback) \<times> 'w"

section \<open>The engine\<close>

definition push_user :: "string \<Rightarrow> engine \<Rightarrow> engine" where
  "push_user text e = e\<lparr>history := history e @ [(User, text)]\<rparr>"

definition push_assistant :: "string \<Rightarrow> engine \<Rightarrow> engine" where
  "push_assistant text e = e\<lparr>history := history e @ [(Assistant, text)]\<rparr>"

definition get_all_assistant_messages :: "engine \<Rightarrow> string list" where
  "get_all_assistant_messages e = map snd (filter (\<lambda>m. fst m = Assistant) (history e))"

definition add_turn :: "TurnLog \<Rightarrow> InterviewLogger \<Rightarrow> InterviewLogger" where
  "add_turn t l = l\<lparr>turns := turns l @ [t]\<rparr>"

definition set_final_feedback :: "FinalFeedback \<Rightarrow> InterviewLogger \<Rightarrow> InterviewLogger" where
  "set_final_feedback fb l = l\<lparr>final_feedback := Some fb\<rparr>"

definition update_difficulty_by_streaks :: "engine \<Rightarrow> engine" where
  "update_difficulty_by_streaks e =
     (let e1 =
        (if streak_good (state e) \<ge> 2
         then e\<lparr>difficulty :=
                   (if difficulty e = Easy then Medium
                    else if difficulty e = Medium then Hard else difficulty e),
                 state := (state e)\<lparr>streak_good := 0\<rparr>\<rparr>
         else e)
      in if streak_poor (state e1) \<ge> 2
         then e1\<lparr>difficulty :=
                    (if difficulty e1 = Hard then Medium
                     else if difficulty e1 = Medium then Easy else difficulty e1),
                  state := (state e1)\<lparr>streak_poor := 0\<rparr>\<rparr>
         else e1)"

definition advance_topic :: "engine \<Rightarrow> error + (string \<times> engine)" where
  \<comment> \<open>\<open>topic_plan[topic_index]\<close> raises IndexError out of range\<close>
  "advance_topic e =
     (let i = topic_index (state e);
          e1 = (if int i < int (length (topic_plan e)) - 1
                then e\<lparr>state := (state e)\<lparr>topic_index := topic_index (state e) + 1\<rparr>\<rparr>
                else e)
      in if topic_index (state e1) < length (topic_plan e1)
         then Inr (topic_plan e1 ! topic_index (state e1), e1)
         else Inl IndexError)"

definition guard_prompt :: "string \<Rightarrow> string \<Rightarrow> string" where
  \<comment> \<open>the f-string \<open>check_prompt\<close> of the topic guard\<close>
  "guard_prompt topic question =
     ''TOPIC_GUARD: Does the following question strictly match the topic?'' @ [CHR 0x0A]
     @ ''TOPIC: '' @ topic @ [CHR 0x0A]
     @ ''QUESTION: '' @ question @ [CHR 0x0A]
     @ ''Answer ONLY with JSON: {'' @ [CHR 0x22] @ ''ok'' @ [CHR 0x22] @ '': true/false, ''
     @ [CHR 0x22] @ ''reason'' @ [CHR 0x22] @ '': '' @ [CHR 0x22] @ ''...'' @ [CHR 0x22] @ ''}''"

definition mismatch_ru_1 :: string where
  \<comment> \<open>the Russian for "does not correspond", 16 characters\<close>
  "mismatch_ru_1 =
     [CHR 0xD0, CHR 0xBD, CHR 0xD0, CHR 0xB5] @ '' ''
     @ [CHR 0xD1, CHR 0x81, CHR 0xD0, CHR 0xBE, CHR 0xD0, CHR 0xBE, CHR 0xD1, CHR 0x82,
        CHR 0xD0, CHR 0xB2, CHR 0xD0, CHR 0xB5, CHR 0xD1, CHR 0x82, CHR 0xD1, CHR 0x81,
        CHR 0xD1, CHR 0x82, CHR 0xD0, CHR 0xB2, CHR 0xD1, CHR 0x83, CHR 0xD0, CHR 0xB5,
        CHR 0xD1, CHR 0x82]"

definition mismatch_ru_2 :: string where
  \<comment> \<open>the Russian for "not on the topic", 10 characters\<close>
  "mismatch_ru_2 =
     [CHR 0xD0, CHR 0xBD, CHR 0xD0, CHR 0xB5] @ '' ''
     @ [CHR 0xD0, CHR 0xBF, CHR 0xD0, CHR 0xBE] @ '' ''
     @ [CHR 0xD1, CHR 0x82, CHR 0xD0, CHR 0xB5, CHR 0xD0, CHR 0xBC, CHR 0xD0, CHR 0xB5]"

definition topic_guard_ok ::
  "'w agents \<Rightarrow> engine \<Rightarrow> string \<Rightarrow> string \<Rightarrow> 'w \<Rightarrow> bool \<times> 'w" where
  "topic_guard_ok A e topic question w =
     (case observer A
             \<lparr>o_position = position e, o_grade = target_grade e,
              o_experience = experience e, o_history = history e,
              o_last_user = guard_prompt topic question, o_state = state e,
              o_state_extra = GuardState topic question, o_current_topic = topic,
              o_current_difficulty = difficulty e, o_topic_plan = topic_plan e\<rparr> w of
        (Inl err, w1) \<Rightarrow> (True, w1)
      | (Inr out, w1) \<Rightarrow>
          (let notes1 = lower (notes out)
           in if contains_str ''mismatch'' notes1 \<or> contains_str mismatch_ru_1 notes1
                 \<or> contains_str mismatch_ru_2 notes1
              then (False, w1) else (True, w1)))"

definition gen_req ::
  "engine \<Rightarrow> string \<Rightarrow> Difficulty \<Rightarrow> string \<Rightarrow> bool \<Rightarrow> string list \<Rightarrow> gen_request" where
  \<comment> \<open>the keyword arguments of a call of \<open>qgen.generate\<close>\<close>
  "gen_req e topic difficulty' intent' need_hint' avoid =
     \<lparr>g_position = position e, g_grade = target_grade e, g_experience = experience e,
      g_topic = topic, g_difficulty = difficulty', g_intent = intent',
      g_need_hint = need_hint', avoid_questions = avoid, g_lang = lang e\<rparr>"

text \<open>
  The \<open>while\<close> loop of \<open>_generate_question\<close>. Like \<open>generate_question\<close> below it returns,
  next to its result, the calls of the generator it made, in order: each request with what
  the generator answered.
\<close>

type_synonym gen_call = "gen_request \<times> (error + GeneratedQuestion)"

function regen_loop ::
  "'w agents \<Rightarrow> engine \<Rightarrow> string \<Rightarrow> Difficulty \<Rightarrow> string \<Rightarrow> bool \<Rightarrow> string list \<Rightarrow> int
     \<Rightarrow> GeneratedQuestion \<Rightarrow> 'w \<Rightarrow> (error + GeneratedQuestion) \<times> gen_call list \<times> 'w" where
  "regen_loop A e topic difficulty' intent' need_hint' avoid attempts gen w =
     (if attempts < max_regen_attempts e then
        (case topic_guard_ok A e topic (question_text gen) w of
           (ok, w1) \<Rightarrow>
             if \<not> ok then
               (let req = gen_req e topic difficulty' (intent' @ ''_REGEN_TOPIC_MISMATCH'')
                            need_hint' (avoid @ [question_text gen])
                in case qgen A req w1 of
                     (Inl err, w2) \<Rightarrow> (Inl err, [(req, Inl err)], w2)
                   | (Inr gen', w2) \<Rightarrow>
                       (case regen_loop A e topic difficulty' intent' need_hint' avoid
                               (attempts + 1) gen' w2 of
                          (r, calls, w3) \<Rightarrow> (r, (req, Inr gen') # calls, w3)))
             else (Inr gen, [], w1))
      else (Inr gen, [], w))"
  by pat_completeness auto
termination
  by (relation "measure (\<lambda>(A, e, topic, d, i, h, avoid, attempts, gen, w).
                           nat (max_regen_attempts e - attempts))") auto

definition generate_question ::
  "'w agents \<Rightarrow> engine \<Rightarrow> string \<Rightarrow> Difficulty \<Rightarrow> string \<Rightarrow> bool \<Rightarrow> 'w
     \<Rightarrow> (error + GeneratedQuestion) \<times> gen_call list \<times> 'w" where
  "generate_question A e topic difficulty' intent' need_hint' w =
     (let avoid = last_n 8 (asked_questions_text e);
          req = gen_req e topic difficulty' intent' need_hint' avoid
      in case qgen A req w of
           (Inl err, w1) \<Rightarrow> (Inl err, [(req, Inl err)], w1)
         | (Inr gen, w1) \<Rightarrow>
             (case regen_loop A e topic difficulty' intent' need_hint' avoid 0 gen w1 of
                (r, calls, w2) \<Rightarrow> (r, (req, Inr gen) # calls, w2)))"

definition retry_req ::
  "engine \<Rightarrow> string \<Rightarrow> Difficulty \<Rightarrow> string \<Rightarrow> bool \<Rightarrow> string list \<Rightarrow> GeneratedQuestion
     \<Rightarrow> gen_request" where
  \<comment> \<open>the request the loop sends after the guard has rejected the draft \<open>gen\<close>\<close>
  "retry_req e topic difficulty' intent' need_hint' avoid gen =
     gen_req e topic difficulty' (intent' @ ''_REGEN_TOPIC_MISMATCH'') need_hint'
       (avoid @ [question_text gen])"

definition update_streaks :: "ObserverOutput \<Rightarrow> engine \<Rightarrow> engine" where
  \<comment> \<open>\<open>step\<close>, part 2: the streak counters\<close>
  "update_streaks plan e =
     (if score_0_100 plan \<ge> 75
      then e\<lparr>state := (state e)\<lparr>streak_good := streak_good (state e) + 1, streak_poor := 0\<rparr>\<rparr>
      else if score_0_100 plan \<le> 45 \<or> answer_quality plan \<in> {Poor, Unknown}
      then e\<lparr>state := (state e)\<lparr>streak_poor := streak_poor (state e) + 1, streak_good := 0\<rparr>\<rparr>
      else e)"

definition decide_topic ::
  "ObserverOutput \<Rightarrow> engine \<Rightarrow> error + (string \<times> ObserverOutput \<times> engine)" where
  \<comment> \<open>\<open>step\<close>, part 3: the planned topic, the evaluation (whose \<open>need_hint\<close> the source
      may overwrite) and the engine; \<open>list.index\<close> raises ValueError on a missing entry\<close>
  "decide_topic plan e =
     (if \<not> should_move_on plan then
        (if score_0_100 plan \<le> 45
         then Inr (current_topic e, plan\<lparr>need_hint := True\<rparr>, e\<lparr>difficulty := Easy\<rparr>)
         else Inr (current_topic e, plan, e))
      else if next_topic plan \<in> set (topic_plan e) then
        (case index_of (topic_plan e) (next_topic plan) of
           None \<Rightarrow> Inl ValueError
         | Some k \<Rightarrow> Inr (next_topic plan, plan, e\<lparr>state := (state e)\<lparr>topic_index := k\<rparr>\<rparr>))
      else
        (case advance_topic e of
           Inl err \<Rightarrow> Inl err
         | Inr (planned_topic, e1) \<Rightarrow>
             (case index_of (topic_plan e1) planned_topic of
                None \<Rightarrow> Inl ValueError
              | Some k \<Rightarrow>
                  Inr (planned_topic, plan, e1\<lparr>state := (state e1)\<lparr>topic_index := k\<rparr>\<rparr>))))"

definition internal_log :: "string \<Rightarrow> ObserverOutput \<Rightarrow> Difficulty \<Rightarrow> string" where
  \<comment> \<open>\<open>step\<close>, part 5: the f-string \<open>internal\<close>\<close>
  "internal_log planned_topic plan difficulty_now =
     ''[Observer] planned_topic='' @ planned_topic
     @ '', quality='' @ str_quality (answer_quality plan)
     @ '', score='' @ str_int (score_0_100 plan)
     @ '', offtopic='' @ str_bool (detected_offtopic plan)
     @ '', hallucination='' @ str_bool (detected_hallucination plan)
     @ '', should_move_on='' @ str_bool (should_move_on plan)
     @ '', need_hint='' @ str_bool (need_hint plan)
     @ '', difficulty_now='' @ str_difficulty difficulty_now
     @ ''. notes='' @ notes plan"

text \<open>
  One turn. An exception of a collaborator ends the call (\<open>Inl\<close>); a call that returns
  gives the visible message, the engine after the turn, the calls of the generator made
  during the turn, and the world. Neither the engine nor \<open>main.py\<close> catches such an
  exception, so the program ends with it; the engine object it leaves behind, with the
  user's message appended and \<open>turn_id\<close> advanced, is not part of the result.
\<close>

definition turn_request :: "engine \<Rightarrow> string \<Rightarrow> obs_request" where
  \<comment> \<open>\<open>step\<close>, part 1: the keyword arguments of \<open>observer.analyze\<close>\<close>
  "turn_request e user_message =
     \<lparr>o_position = position e, o_grade = target_grade e,
      o_experience = experience e, o_history = history e,
      o_last_user = user_message, o_state = state e,
      o_state_extra =
        TurnState (last_n 8 (asked_topics e)) (last_n 5 (asked_questions_text e)),
      o_current_topic = current_topic e,
      o_current_difficulty = difficulty e, o_topic_plan = topic_plan e\<rparr>"

definition step ::
  "'w agents \<Rightarrow> string \<Rightarrow> engine \<Rightarrow> 'w
     \<Rightarrow> error + (string \<times> engine \<times> gen_call list \<times> 'w)" where
  "step A user_message e w =
     (let e1 = push_user user_message (e\<lparr>turn_id := turn_id e + 1\<rparr>)
      in case observer A (turn_request e1 user_message) w of
           (Inl err, w1) \<Rightarrow> Inl err
         | (Inr plan, w1) \<Rightarrow>
             (case decide_topic plan (update_difficulty_by_streaks (update_streaks plan e1)) of
                Inl err \<Rightarrow> Inl err
              | Inr (planned_topic, plan2, e3) \<Rightarrow>
                  (let e4 = e3\<lparr>current_topic := planned_topic\<rparr>
                   in case generate_question A e4 planned_topic (difficulty e4)
                             (intent plan2) (need_hint plan2) w1 of
                        (Inl err, calls, w2) \<Rightarrow> Inl err
                      | (Inr gen, calls, w2) \<Rightarrow>
                          (let e5 = e4\<lparr>asked_questions_text :=
                                         asked_questions_text e4 @ [question_text gen],
                                       asked_topics := asked_topics e4 @ [planned_topic]\<rparr>;
                               internal = internal_log planned_topic plan2 (difficulty e5)
                           in case interviewer A
                                     \<lparr>r_history = history e5, r_observer_plan = plan2,
                                      r_last_user = user_message,
                                      r_question_text = question_text gen,
                                      r_hint = hint gen\<rparr> w2 of
                                (Inl err, w3) \<Rightarrow> Inl err
                              | (Inr visible, w3) \<Rightarrow>
                                  (let e6 = push_assistant visible e5;
                                       e7 = e6\<lparr>logger :=
                                              add_turn
                                                \<lparr>log_turn_id = turn_id e6,
                                                 log_topic = planned_topic,
                                                 log_difficulty = difficulty e6,
                                                 log_score_0_100 = score_0_100 plan2,
                                                 log_ideal_answer_short = ideal_answer_short gen,
                                                 log_agent_visible_message = visible,
                                                 log_user_message = user_message,
                                                 log_internal_thoughts = internal\<rparr>
                                                (logger e6)\<rparr>;
                                       e8 = e7\<lparr>state :=
                                              (state e7)\<lparr>last_topic := Some planned_topic,
                                                         last_intent := Some (intent plan2)\<rparr>\<rparr>
                                   in Inr (visible, e8, calls, w3))))))"

definition default_topics :: "string list" where
  "default_topics = [''general_basics'', ''problem_solving'', ''tools_workflow'']"

definition build_interviewer_intro :: "string \<Rightarrow> string \<Rightarrow> string \<Rightarrow> string" where
  \<comment> \<open>the Russian greeting of \<open>prompts.py\<close>, with the position, the grade in brackets
      and the experience filled in\<close>
  "build_interviewer_intro position' grade' experience' =
     [CHR 0xD0, CHR 0x9F, CHR 0xD1, CHR 0x80, CHR 0xD0, CHR 0xB8, CHR 0xD0, CHR 0xB2, CHR 0xD0,
      CHR 0xB5, CHR 0xD1, CHR 0x82] @ ''! ''
     @ [CHR 0xD0, CHR 0x9F, CHR 0xD1, CHR 0x80, CHR 0xD0, CHR 0xBE, CHR 0xD0, CHR 0xB2, CHR 0xD0,
        CHR 0xB5, CHR 0xD0, CHR 0xB4, CHR 0xD1, CHR 0x83] @ '' ''
     @ [CHR 0xD0, CHR 0xBA, CHR 0xD0, CHR 0xBE, CHR 0xD1, CHR 0x80, CHR 0xD0, CHR 0xBE, CHR 0xD1,
        CHR 0x82, CHR 0xD0, CHR 0xBA, CHR 0xD0, CHR 0xBE, CHR 0xD0, CHR 0xB5] @ '' ''
     @ [CHR 0xD1, CHR 0x82, CHR 0xD0, CHR 0xB5, CHR 0xD1, CHR 0x85, CHR 0xD0, CHR 0xB8, CHR 0xD0,
        CHR 0xBD, CHR 0xD1, CHR 0x82, CHR 0xD0, CHR 0xB5, CHR 0xD1, CHR 0x80, CHR 0xD0, CHR 0xB2,
        CHR 0xD1, CHR 0x8C, CHR 0xD1, CHR 0x8E] @ '' ''
     @ [CHR 0xD0, CHR 0xBD, CHR 0xD0, CHR 0xB0] @ '' ''
     @ [CHR 0xD0, CHR 0xBF, CHR 0xD0, CHR 0xBE, CHR 0xD0, CHR 0xB7, CHR 0xD0, CHR 0xB8, CHR 0xD1,
        CHR 0x86, CHR 0xD0, CHR 0xB8, CHR 0xD1, CHR 0x8E] @ '' ''
     @ position' @ '' ('' @ grade' @ ''). ''
     @ [CHR 0xD0, CHR 0x92, CHR 0xD0, CHR 0xB8, CHR 0xD0, CHR 0xB6, CHR 0xD1, CHR 0x83] @ '' ''
     @ [CHR 0xD1, CHR 0x82, CHR 0xD0, CHR 0xB2, CHR 0xD0, CHR 0xBE, CHR 0xD0, CHR 0xB9] @ '' ''
     @ [CHR 0xD0, CHR 0xBE, CHR 0xD0, CHR 0xBF, CHR 0xD1, CHR 0x8B, CHR 0xD1, CHR 0x82] @ '': ''
     @ experience' @ ''. ''
     @ [CHR 0xD0, CHR 0x9E, CHR 0xD1, CHR 0x82, CHR 0xD0, CHR 0xB2, CHR 0xD0, CHR 0xB5, CHR 0xD1,
        CHR 0x87, CHR 0xD0, CHR 0xB0, CHR 0xD0, CHR 0xB9] @ '' ''
     @ [CHR 0xD1, CHR 0x81, CHR 0xD0, CHR 0xB2, CHR 0xD0, CHR 0xBE, CHR 0xD0, CHR 0xB8, CHR 0xD0,
        CHR 0xBC, CHR 0xD0, CHR 0xB8] @ '' ''
     @ [CHR 0xD1, CHR 0x81, CHR 0xD0, CHR 0xBB, CHR 0xD0, CHR 0xBE, CHR 0xD0, CHR 0xB2, CHR 0xD0,
        CHR 0xB0, CHR 0xD0, CHR 0xBC, CHR 0xD0, CHR 0xB8] @ ''. ''
     @ [CHR 0xD0, CHR 0x95, CHR 0xD1, CHR 0x81, CHR 0xD0, CHR 0xBB, CHR 0xD0, CHR 0xB8] @ '' ''
     @ [CHR 0xD1, CHR 0x87, CHR 0xD1, CHR 0x82, CHR 0xD0, CHR 0xBE] @ ''-''
     @ [CHR 0xD1, CHR 0x82, CHR 0xD0, CHR 0xBE] @ '' '' @ [CHR 0xD0, CHR 0xBD, CHR 0xD0, CHR 0xB5]
     @ '' ''
     @ [CHR 0xD0, CHR 0xB7, CHR 0xD0, CHR 0xBD, CHR 0xD0, CHR 0xB0, CHR 0xD0, CHR 0xB5, CHR 0xD1,
        CHR 0x88, CHR 0xD1, CHR 0x8C] @ '' '' @ [CHR 0xE2, CHR 0x80, CHR 0x94] @ '' ''
     @ [CHR 0xD1, CHR 0x82, CHR 0xD0, CHR 0xB0, CHR 0xD0, CHR 0xBA] @ '' '' @ [CHR 0xD0, CHR 0xB8]
     @ '' ''
     @ [CHR 0xD1, CHR 0x81, CHR 0xD0, CHR 0xBA, CHR 0xD0, CHR 0xB0, CHR 0xD0, CHR 0xB6, CHR 0xD0,
        CHR 0xB8] @ ''. ''
     @ [CHR 0xD0, CHR 0x9D, CHR 0xD0, CHR 0xB0, CHR 0xD1, CHR 0x87, CHR 0xD0, CHR 0xBD, CHR 0xD1,
        CHR 0x91, CHR 0xD0, CHR 0xBC] @ ''.''"

text \<open>
  The constructor. \<open>plan.topics or [...]\<close> replaces an empty plan by the default one;
  \<open>topic_plan[0]\<close> would raise IndexError on an empty list.
\<close>

definition engine_init ::
  "'w agents \<Rightarrow> string \<Rightarrow> string \<Rightarrow> string \<Rightarrow> string \<Rightarrow> string \<Rightarrow> int \<Rightarrow> 'w
     \<Rightarrow> error + (engine \<times> gen_call list \<times> 'w)" where
  "engine_init A position' target_grade' experience' participant_name' lang' max_regen w =
     (case planner A \<lparr>p_position = position', p_grade = target_grade',
                      p_experience = experience', p_lang = lang'\<rparr> w of
        (Inl err, w1) \<Rightarrow> Inl err
      | (Inr plan, w1) \<Rightarrow>
          (case (if topics plan = [] then default_topics else topics plan) of
             [] \<Rightarrow> Inl IndexError
           | t0 # rest \<Rightarrow>
               (let e0 = \<lparr>position = position', target_grade = target_grade',
                          experience = experience', participant_name = participant_name',
                          lang = lang', max_regen_attempts = max_regen,
                          logger = \<lparr>logger_participant_name = participant_name', turns = [],
                                    final_feedback = None\<rparr>,
                          turn_id = 0, history = [],
                          state = \<lparr>last_topic = None, last_intent = None, topic_index = 0,
                                   streak_good = 0, streak_poor = 0\<rparr>,
                          topic_plan = t0 # rest, current_topic = t0, difficulty = Easy,
                          asked_questions_text = [], asked_topics = []\<rparr>;
                    e1 = push_assistant
                           (build_interviewer_intro position' target_grade' experience') e0
                in case generate_question A e1 (current_topic e1) (difficulty e1)
                          ''warmup'' False w1 of
                     (Inl err, calls, w2) \<Rightarrow> Inl err
                   | (Inr first_q, calls, w2) \<Rightarrow>
                       Inr (push_assistant (question_text first_q)
                              (e1\<lparr>asked_questions_text :=
                                    asked_questions_text e1 @ [question_text first_q],
                                  asked_topics := asked_topics e1 @ [current_topic e1]\<rparr>),
                            calls, w2))))"

definition finish ::
  "'w agents \<Rightarrow> engine \<Rightarrow> 'w \<Rightarrow> error + (FinalFeedback \<times> engine \<times> 'w)" where
  "finish A e w =
     (case hiring_manager A
             \<lparr>f_position = position e, f_target_grade = target_grade e,
              f_experience = experience e, f_turns = turns (logger e),
              f_transcript = history e\<rparr> w of
        (Inl err, w1) \<Rightarrow> Inl err
      | (Inr feedback, w1) \<Rightarrow>
          Inr (feedback, e\<lparr>logger := set_final_feedback feedback (logger e)\<rparr>, w1))"

text \<open>
  The states of a session: the one the constructor returns, and those a returning call of
  \<open>step\<close> leads to from there, whatever the user says and the outside world does.
\<close>

inductive reachable :: "'w agents \<Rightarrow> engine \<Rightarrow> bool" for A :: "'w agents" where
  init: "engine_init A pos gr ex nm lg mr w = Inr (e, calls, w') \<Longrightarrow> reachable A e"
| turn: "reachable A e \<Longrightarrow> step A user_message e w = Inr (visible, e', calls, w')
           \<Longrightarrow> reachable A e'"

section \<open>The difficulty rule in the words of the specification\<close>

text \<open>
  The specification's rule for one turn, on the difficulty and the two streaks: first the
  streak update from the score and the quality, then the transition. It is compared with
  the code below.
\<close>

definition promote :: "Difficulty \<Rightarrow> Difficulty" where
  "promote d = (case d of Easy \<Rightarrow> Medium | Medium \<Rightarrow> Hard | Hard \<Rightarrow> Hard)"

definition demote :: "Difficulty \<Rightarrow> Difficulty" where
  "demote d = (case d of Hard \<Rightarrow> Medium | Medium \<Rightarrow> Easy | Easy \<Rightarrow> Easy)"

definition spec_streak_update :: "int \<Rightarrow> Quality \<Rightarrow> nat \<times> nat \<Rightarrow> nat \<times> nat" where
  "spec_streak_update score quality s =
     (case s of (good, poor) \<Rightarrow>
        if score \<ge> 75 then (good + 1, 0)
        else if score \<le> 45 \<or> quality \<in> {Poor, Unknown} then (0, poor + 1)
        else (good, poor))"

definition spec_transition :: "Difficulty \<times> nat \<times> nat \<Rightarrow> Difficulty \<times> nat \<times> nat" where
  "spec_transition s =
     (case s of (d, good, poor) \<Rightarrow>
        if good \<ge> 2 then (promote d, 0, poor)
        else if poor \<ge> 2 then (demote d, good, 0)
        else (d, good, poor))"

section \<open>The agents' handling of a reply\<close>

text \<open>
  \<open>json.loads\<close> and the \<open>model_validate\<close> of each pydantic class are library code and
  are taken as parameters: \<open>json_loads s\<close> is the parsed value (of a type \<open>'j\<close>), or
  \<open>None\<close> where \<open>json.loads\<close> raises JSONDecodeError; \<open>validate v\<close> is the validated
  object, or \<open>None\<close> where \<open>model_validate\<close> raises ValidationError. In Python neither of the
  two exception classes is a subclass of the other.
\<close>

definition safe_json_load :: "(string \<Rightarrow> 'j option) \<Rightarrow> string \<Rightarrow> error + 'j" where
  "safe_json_load json_loads s0 =
     (let s = strip s0
      in case json_loads s of
           Some v \<Rightarrow> Inr v
         | None \<Rightarrow>
             (let start = find_char (CHR ''{'') s;
                  end' = rfind_char (CHR ''}'') s
              in if start \<noteq> -1 \<and> end' \<noteq> -1 \<and> end' > start
                 then (case json_loads (slice start (end' + 1) s) of
                         Some v \<Rightarrow> Inr v
                       | None \<Rightarrow> Inl JSONDecodeError)
                 else Inl JSONDecodeError))"

definition load_and_validate ::
  "(string \<Rightarrow> 'j option) \<Rightarrow> ('j \<Rightarrow> 'a option) \<Rightarrow> string \<Rightarrow> error + 'a" where
  \<comment> \<open>the two statements every agent runs on a reply:
      \<open>data = _safe_json_load(raw)\<close> and \<open>X.model_validate(data)\<close>\<close>
  "load_and_validate json_loads validate raw =
     (case safe_json_load json_loads raw of
        Inl err \<Rightarrow> Inl err
      | Inr data \<Rightarrow> (case validate data of None \<Rightarrow> Inl ValidationError | Some x \<Rightarrow> Inr x))"

definition build_plan ::
  "(string \<Rightarrow> 'j option) \<Rightarrow> ('j \<Rightarrow> TopicPlan option) \<Rightarrow> string \<Rightarrow> TopicPlan" where
  \<comment> \<open>\<open>TopicPlannerAgent.build_plan\<close> from the reply \<open>raw\<close> on: \<open>except Exception\<close>\<close>
  "build_plan json_loads validate raw =
     (case load_and_validate json_loads validate raw of
        Inl err \<Rightarrow> \<lparr>topics = default_topics\<rparr>
      | Inr plan \<Rightarrow> (if topics plan = [] then plan\<lparr>topics := default_topics\<rparr> else plan))"

definition fallback_feedback :: "string \<Rightarrow> FinalFeedback" where
  \<comment> \<open>the report of the \<open>except\<close> branch of \<open>build_feedback\<close>; the gap says, in Russian,
      that the final report could not be formed (validation error), the roadmap to repeat
      the basic topics and try again\<close>
  "fallback_feedback raw =
     \<lparr>grade = Junior, hiring_recommendation = NoHire, confidence_score_0_100 = 45,
      confirmed_skills = [],
      knowledge_gaps =
        [[CHR 0xD0, CHR 0x9D, CHR 0xD0, CHR 0xB5] @ '' ''
         @ [CHR 0xD1, CHR 0x83, CHR 0xD0, CHR 0xB4, CHR 0xD0, CHR 0xB0, CHR 0xD0, CHR 0xBB,
            CHR 0xD0, CHR 0xBE, CHR 0xD1, CHR 0x81, CHR 0xD1, CHR 0x8C] @ '' ''
         @ [CHR 0xD0, CHR 0xBA, CHR 0xD0, CHR 0xBE, CHR 0xD1, CHR 0x80, CHR 0xD1, CHR 0x80,
            CHR 0xD0, CHR 0xB5, CHR 0xD0, CHR 0xBA, CHR 0xD1, CHR 0x82, CHR 0xD0, CHR 0xBD,
            CHR 0xD0, CHR 0xBE] @ '' ''
         @ [CHR 0xD1, CHR 0x81, CHR 0xD1, CHR 0x84, CHR 0xD0, CHR 0xBE, CHR 0xD1, CHR 0x80,
            CHR 0xD0, CHR 0xBC, CHR 0xD0, CHR 0xB8, CHR 0xD1, CHR 0x80, CHR 0xD0, CHR 0xBE,
            CHR 0xD0, CHR 0xB2, CHR 0xD0, CHR 0xB0, CHR 0xD1, CHR 0x82, CHR 0xD1, CHR 0x8C]
         @ '' ''
         @ [CHR 0xD1, CHR 0x84, CHR 0xD0, CHR 0xB8, CHR 0xD0, CHR 0xBD, CHR 0xD0, CHR 0xB0,
            CHR 0xD0, CHR 0xBB, CHR 0xD1, CHR 0x8C, CHR 0xD0, CHR 0xBD, CHR 0xD1, CHR 0x8B,
            CHR 0xD0, CHR 0xB9] @ '' ''
         @ [CHR 0xD0, CHR 0xBE, CHR 0xD1, CHR 0x82, CHR 0xD1, CHR 0x87, CHR 0xD1, CHR 0x91,
            CHR 0xD1, CHR 0x82] @ '' (''
         @ [CHR 0xD0, CHR 0xBE, CHR 0xD1, CHR 0x88, CHR 0xD0, CHR 0xB8, CHR 0xD0, CHR 0xB1,
            CHR 0xD0, CHR 0xBA, CHR 0xD0, CHR 0xB0] @ '' ''
         @ [CHR 0xD0, CHR 0xB2, CHR 0xD0, CHR 0xB0, CHR 0xD0, CHR 0xBB, CHR 0xD0, CHR 0xB8,
            CHR 0xD0, CHR 0xB4, CHR 0xD0, CHR 0xB0, CHR 0xD1, CHR 0x86, CHR 0xD0, CHR 0xB8,
            CHR 0xD0, CHR 0xB8] @ '').''],
      corrections = [take_chars 300 raw],
      clarity = Mid, honesty = Mid, engagement = Low,
      roadmap =
        [[CHR 0xD0, CHR 0x9F, CHR 0xD0, CHR 0xBE, CHR 0xD0, CHR 0xB2, CHR 0xD1, CHR 0x82,
          CHR 0xD0, CHR 0xBE, CHR 0xD1, CHR 0x80, CHR 0xD0, CHR 0xB8, CHR 0xD1, CHR 0x82,
          CHR 0xD1, CHR 0x8C] @ '' ''
         @ [CHR 0xD0, CHR 0xB1, CHR 0xD0, CHR 0xB0, CHR 0xD0, CHR 0xB7, CHR 0xD0, CHR 0xBE,
            CHR 0xD0, CHR 0xB2, CHR 0xD1, CHR 0x8B, CHR 0xD0, CHR 0xB5] @ '' ''
         @ [CHR 0xD1, CHR 0x82, CHR 0xD0, CHR 0xB5, CHR 0xD0, CHR 0xBC, CHR 0xD1, CHR 0x8B]
         @ '' '' @ [CHR 0xD0, CHR 0xB8] @ '' ''
         @ [CHR 0xD0, CHR 0xBF, CHR 0xD0, CHR 0xBE, CHR 0xD0, CHR 0xBF, CHR 0xD1, CHR 0x80,
            CHR 0xD0, CHR 0xBE, CHR 0xD0, CHR 0xB1, CHR 0xD0, CHR 0xBE, CHR 0xD0, CHR 0xB2,
            CHR 0xD0, CHR 0xB0, CHR 0xD1, CHR 0x82, CHR 0xD1, CHR 0x8C] @ '' ''
         @ [CHR 0xD0, CHR 0xB7, CHR 0xD0, CHR 0xB0, CHR 0xD0, CHR 0xBD, CHR 0xD0, CHR 0xBE,
            CHR 0xD0, CHR 0xB2, CHR 0xD0, CHR 0xBE] @ ''.'']\<rparr>"

definition build_feedback ::
  "(string \<Rightarrow> 'j option) \<Rightarrow> ('j \<Rightarrow> FinalFeedback option) \<Rightarrow> string
     \<Rightarrow> error + FinalFeedback" where
  \<comment> \<open>\<open>HiringManagerAgent.build_feedback\<close> from the reply \<open>raw\<close> on:
      \<open>except ValidationError\<close>, every other exception leaves the method\<close>
  "build_feedback json_loads validate raw =
     (case load_and_validate json_loads validate raw of
        Inl err \<Rightarrow> (if err = ValidationError then Inr (fallback_feedback raw) else Inl err)
      | Inr fb \<Rightarrow> Inr fb)"

text \<open>
  The two agents as collaborators of the engine. \<open>chat\<close> stands for \<open>client.chat\<close> on the
  messages the method builds from its arguments: the reply of the model, or the exception
  of the transport, which no agent catches.
\<close>

definition TopicPlannerAgent ::
  "(string \<Rightarrow> 'j option) \<Rightarrow> ('j \<Rightarrow> TopicPlan option)
     \<Rightarrow> (plan_request \<Rightarrow> 'w \<Rightarrow> (error + string) \<times> 'w)
     \<Rightarrow> plan_request \<Rightarrow> 'w \<Rightarrow> (error + TopicPlan) \<times> 'w" where
  "TopicPlannerAgent json_loads validate chat req w =
     (case chat req w of
        (Inl err, w1) \<Rightarrow> (Inl err, w1)
      | (Inr raw, w1) \<Rightarrow> (Inr (build_plan json_loads validate raw), w1))"

definition HiringManagerAgent ::
  "(string \<Rightarrow> 'j option) \<Rightarrow> ('j \<Rightarrow> FinalFeedback option)
     \<Rightarrow> (feedback_request \<Rightarrow> 'w \<Rightarrow> (error + string) \<times> 'w)
     \<Rightarrow> feedback_request \<Rightarrow> 'w \<Rightarrow> (error + FinalFeedback) \<times> 'w" where
  "HiringManagerAgent json_loads validate chat req w =
     (case chat req w of
        (Inl err, w1) \<Rightarrow> (Inl err, w1)
      | (Inr raw, w1) \<Rightarrow> (build_feedback json_loads validate raw, w1))"

section \<open>Sessions and scripted collaborators\<close>

text \<open>
  The loop of \<open>main.py\<close> calls \<open>step\<close> once for every message of the user; an exception
  ends the program.
\<close>

fun run_steps :: "'w agents \<Rightarrow> string list \<Rightarrow> engine \<Rightarrow> 'w \<Rightarrow> error + (engine \<times> 'w)" where
  "run_steps A [] e w = Inr (e, w)"
| "run_steps A (m # ms) e w =
     (case step A m e w of
        Inl err \<Rightarrow> Inl err
      | Inr (visible, e', calls, w') \<Rightarrow> run_steps A ms e' w')"

text \<open>
  Collaborators for concrete runs. The world is the list of evaluations the observer
  still has to give, one for each turn; asked as topic guard, the observer answers with
  the fixed notes \<open>guard_notes\<close>. The planner returns the topics \<open>ts\<close>, the generator a
  question naming its topic, the interviewer the acknowledgement followed by the question.
\<close>

definition evaluation :: "int \<Rightarrow> Quality \<Rightarrow> bool \<Rightarrow> string \<Rightarrow> ObserverOutput" where
  "evaluation score quality move_on nxt =
     \<lparr>detected_offtopic = False, detected_hallucination = False, answer_quality = quality,
      score_0_100 = score, next_difficulty = Easy, next_topic = nxt,
      intent = ''check_basics'', should_move_on = move_on, need_hint = False,
      acknowledge = ''I see.'', notes = []\<rparr>"

definition scripted :: "string list \<Rightarrow> string \<Rightarrow> (ObserverOutput list) agents" where
  "scripted ts guard_notes =
     \<lparr>planner = (\<lambda>req w. (Inr \<lparr>topics = ts\<rparr>, w)),
      observer =
        (\<lambda>req w.
           case o_state_extra req of
             GuardState t q \<Rightarrow> (Inr ((evaluation 50 Unknown True t)\<lparr>notes := guard_notes\<rparr>), w)
           | TurnState ats aqs \<Rightarrow>
               (case w of [] \<Rightarrow> (Inl TransportError, []) | out # rest \<Rightarrow> (Inr out, rest))),
      qgen =
        (\<lambda>req w.
           (Inr \<lparr>question_text = ''Question about '' @ g_topic req @ ''?'',
                 hint = (if g_need_hint req then ''A hint.'' else []),
                 ideal_answer_short = ''An answer.''\<rparr>, w)),
      interviewer =
        (\<lambda>req w. (Inr (acknowledge (r_observer_plan req) @ '' '' @ r_question_text req), w)),
      hiring_manager = (\<lambda>req w. (Inl TransportError, w))\<rparr>"

definition session ::
  "string list \<Rightarrow> string \<Rightarrow> int \<Rightarrow> string list \<Rightarrow> ObserverOutput list
     \<Rightarrow> error + (engine \<times> ObserverOutput list)" where
  \<comment> \<open>a session with the scripted collaborators: construction, then one turn for every
      message\<close>
  "session ts guard_notes max_regen msgs script =
     (case engine_init (scripted ts guard_notes) ''Backend Developer'' ''Junior''
             ''Python basics'' ''Candidate'' ''ru'' max_regen script of
        Inl err \<Rightarrow> Inl err
      | Inr (e, calls, w) \<Rightarrow> run_steps (scripted ts guard_notes) msgs e w)"

section \<open>Auxiliary facts\<close>

subsection \<open>Lists and strings\<close>

lemma index_of_Some: "index_of xs x = Some k \<Longrightarrow> k < length xs \<and> xs ! k = x"
  by (induction xs arbitrary: k) (auto split: if_splits)

lemma index_of_mem: "x \<in> set xs \<Longrightarrow> \<exists>k. index_of xs x = Some k"
  by (induction xs) auto

lemma index_of_distinct: "distinct xs \<Longrightarrow> k < length xs \<Longrightarrow> index_of xs (xs ! k) = Some k"
  by (induction xs arbitrary: k) (auto simp: nth_Cons split: nat.splits)

lemma lstrip_suffix: "suffix (lstrip s) s"
proof (induction s rule: lstrip.induct)
  case 1
  show ?case by simp
next
  case (2 c cs)
  show ?case
  proof (cases "ascii_space c")
    case True
    with "2.IH"(1) show ?thesis by (simp add: suffix_Cons)
  next
    case sp: False
    show ?thesis
    proof (cases cs)
      case Nil
      with sp show ?thesis by simp
    next
      case cs: (Cons d ds)
      show ?thesis
      proof (cases "[c, d] \<in> set wide_spaces")
        case True
        with sp cs "2.IH"(2) [OF sp cs True] show ?thesis
          by (simp add: suffix_Cons)
      next
        case two: False
        show ?thesis
        proof (cases ds)
          case Nil
          with sp cs two show ?thesis by simp
        next
          case ds: (Cons f fs)
          show ?thesis
          proof (cases "[c, d, f] \<in> set wide_spaces")
            case True
            with sp cs two ds "2.IH"(3) [OF sp cs two ds True] show ?thesis
              by (simp add: suffix_Cons)
          next
            case False
            with sp cs two ds show ?thesis by simp
          qed
        qed
      qed
    qed
  qed
qed

lemma rstrip_rev_suffix: "suffix (rstrip_rev s) s"
proof (induction s rule: rstrip_rev.induct)
  case 1
  show ?case by simp
next
  case (2 c cs)
  show ?case
  proof (cases "ascii_space c")
    case True
    with "2.IH"(1) show ?thesis by (simp add: suffix_Cons)
  next
    case sp: False
    show ?thesis
    proof (cases cs)
      case Nil
      with sp show ?thesis by simp
    next
      case cs: (Cons d ds)
      show ?thesis
      proof (cases "[d, c] \<in> set wide_spaces")
        case True
        with sp cs "2.IH"(2) [OF sp cs True] show ?thesis
          by (simp add: suffix_Cons)
      next
        case two: False
        show ?thesis
        proof (cases ds)
          case Nil
          with sp cs two show ?thesis by simp
        next
          case ds: (Cons f fs)
          show ?thesis
          proof (cases "[f, d, c] \<in> set wide_spaces")
            case True
            with sp cs two ds "2.IH"(3) [OF sp cs two ds True] show ?thesis
              by (simp add: suffix_Cons)
          next
            case False
            with sp cs two ds show ?thesis by simp
          qed
        qed
      qed
    qed
  qed
qed

lemma set_strip: "set (strip s) \<subseteq> set s"
proof -
  have "set (rstrip_rev (rev (lstrip s))) \<subseteq> set (rev (lstrip s))"
    using rstrip_rev_suffix by (rule set_mono_suffix)
  moreover have "set (lstrip s) \<subseteq> set s"
    using lstrip_suffix by (rule set_mono_suffix)
  ultimately show ?thesis by (auto simp: strip_def)
qed

lemma find_char_absent: "c \<notin> set s \<Longrightarrow> find_char c s = -1"
  by (induction s) (auto simp: Let_def)

lemma safe_json_load_no_brace:
  assumes "json_loads (strip raw) = None" and "CHR ''{'' \<notin> set raw"
  shows "safe_json_load json_loads raw = Inl JSONDecodeError"
proof -
  from assms(2) set_strip [of raw] have "CHR ''{'' \<notin> set (strip raw)" by auto
  then have "find_char (CHR ''{'') (strip raw) = -1" by (rule find_char_absent)
  with assms(1) show ?thesis by (simp add: safe_json_load_def Let_def)
qed

subsection \<open>The regeneration loop\<close>

declare regen_loop.simps [simp del]

lemma regen_loop_stop:
  "\<not> attempts < max_regen_attempts e
   \<Longrightarrow> regen_loop A e topic d i h avoid attempts gen w = (Inr gen, [], w)"
  by (subst regen_loop.simps) simp

lemma regen_loop_ok:
  "attempts < max_regen_attempts e \<Longrightarrow> topic_guard_ok A e topic (question_text gen) w = (True, w1)
   \<Longrightarrow> regen_loop A e topic d i h avoid attempts gen w = (Inr gen, [], w1)"
  by (subst regen_loop.simps) simp

lemma regen_loop_err:
  "attempts < max_regen_attempts e \<Longrightarrow> topic_guard_ok A e topic (question_text gen) w = (False, w1)
   \<Longrightarrow> qgen A (retry_req e topic d i h avoid gen) w1 = (Inl err, w2)
   \<Longrightarrow> regen_loop A e topic d i h avoid attempts gen w
       = (Inl err, [(retry_req e topic d i h avoid gen, Inl err)], w2)"
  by (subst regen_loop.simps) (simp add: retry_req_def)

lemma regen_loop_retry:
  "attempts < max_regen_attempts e \<Longrightarrow> topic_guard_ok A e topic (question_text gen) w = (False, w1)
   \<Longrightarrow> qgen A (retry_req e topic d i h avoid gen) w1 = (Inr gen', w2)
   \<Longrightarrow> regen_loop A e topic d i h avoid (attempts + 1) gen' w2 = (r, calls, w3)
   \<Longrightarrow> regen_loop A e topic d i h avoid attempts gen w
       = (r, (retry_req e topic d i h avoid gen, Inr gen') # calls, w3)"
  by (subst regen_loop.simps) (simp add: retry_req_def)

lemma regen_loop_rule:
  assumes stop: "\<And>attempts gen w. \<not> attempts < max_regen_attempts e \<Longrightarrow> P attempts gen w (Inr gen, [], w)"
    and ok: "\<And>attempts gen w w1. attempts < max_regen_attempts e
               \<Longrightarrow> topic_guard_ok A e topic (question_text gen) w = (True, w1)
               \<Longrightarrow> P attempts gen w (Inr gen, [], w1)"
    and err: "\<And>attempts gen w w1 err w2. attempts < max_regen_attempts e
               \<Longrightarrow> topic_guard_ok A e topic (question_text gen) w = (False, w1)
               \<Longrightarrow> qgen A (retry_req e topic d i h avoid gen) w1 = (Inl err, w2)
               \<Longrightarrow> P attempts gen w (Inl err, [(retry_req e topic d i h avoid gen, Inl err)], w2)"
    and retry: "\<And>attempts gen w w1 gen' w2 r calls w3. attempts < max_regen_attempts e
               \<Longrightarrow> topic_guard_ok A e topic (question_text gen) w = (False, w1)
               \<Longrightarrow> qgen A (retry_req e topic d i h avoid gen) w1 = (Inr gen', w2)
               \<Longrightarrow> regen_loop A e topic d i h avoid (attempts + 1) gen' w2 = (r, calls, w3)
               \<Longrightarrow> P (attempts + 1) gen' w2 (r, calls, w3)
               \<Longrightarrow> P attempts gen w (r, (retry_req e topic d i h avoid gen, Inr gen') # calls, w3)"
  shows "P attempts gen w (regen_loop A e topic d i h avoid attempts gen w)"
proof (induction n \<equiv> "nat (max_regen_attempts e - attempts)" arbitrary: attempts gen w)
  case 0
  then have "\<not> attempts < max_regen_attempts e" by simp
  then show ?case by (simp add: regen_loop_stop stop)
next
  case (Suc n)
  then have lt: "attempts < max_regen_attempts e" by simp
  obtain b w1 where g: "topic_guard_ok A e topic (question_text gen) w = (b, w1)"
    by (cases "topic_guard_ok A e topic (question_text gen) w")
  show ?case
  proof (cases b)
    case True
    with lt g show ?thesis by (simp add: regen_loop_ok ok)
  next
    case False
    obtain x w2 where q: "qgen A (retry_req e topic d i h avoid gen) w1 = (x, w2)"
      by (cases "qgen A (retry_req e topic d i h avoid gen) w1")
    show ?thesis
    proof (cases x)
      case (Inl er)
      with lt g q False show ?thesis by (simp add: regen_loop_err err)
    next
      case (Inr gen')
      obtain r calls w3 where
        rec: "regen_loop A e topic d i h avoid (attempts + 1) gen' w2 = (r, calls, w3)"
        by (cases "regen_loop A e topic d i h avoid (attempts + 1) gen' w2")
      have "n = nat (max_regen_attempts e - (attempts + 1))" using Suc.hyps(2) by simp
      then have "P (attempts + 1) gen' w2 (regen_loop A e topic d i h avoid (attempts + 1) gen' w2)"
        by (rule Suc.hyps(1))
      with rec have "P (attempts + 1) gen' w2 (r, calls, w3)" by simp
      with lt g q False Inr rec show ?thesis
        by (simp add: regen_loop_retry retry)
    qed
  qed
qed

lemma regen_loop_bound:
  "int (length (fst (snd (regen_loop A e topic d i h avoid attempts gen w))))
     \<le> max 0 (max_regen_attempts e - attempts)"
  by (rule regen_loop_rule
        [where P = "\<lambda>attempts gen w res.
                      int (length (fst (snd res))) \<le> max 0 (max_regen_attempts e - attempts)"])
     auto

lemma regen_loop_result:
  "(case regen_loop A e topic d i h avoid attempts gen w of
      (r, calls, w') \<Rightarrow> r = (if calls = [] then Inr gen else snd (last calls)))"
  by (rule regen_loop_rule
        [where P = "\<lambda>attempts gen w res.
                      case res of (r, calls, w') \<Rightarrow>
                        r = (if calls = [] then Inr gen else snd (last calls))"]) auto

lemma regen_loop_result_of:
  assumes "regen_loop A e topic d i h avoid attempts gen w = (r, calls, w')"
  shows "r = (if calls = [] then Inr gen else snd (last calls))"
  using regen_loop_result
          [where A = A and e = e and topic = topic and d = d and i = i and h = h
             and avoid = avoid and attempts = attempts and gen = gen and w = w] assms
  by simp

lemma regen_loop_requests:
  "(case regen_loop A e topic d i h avoid attempts gen w of
      (r, calls, w') \<Rightarrow>
        (calls \<noteq> [] \<longrightarrow> fst (hd calls) = retry_req e topic d i h avoid gen)
        \<and> (\<forall>k. Suc k < length calls \<longrightarrow>
              (\<exists>g. snd (calls ! k) = Inr g
                    \<and> fst (calls ! Suc k) = retry_req e topic d i h avoid g)))"
proof (rule regen_loop_rule
        [where P = "\<lambda>attempts gen w res.
                      case res of (r, calls, w') \<Rightarrow>
                        (calls \<noteq> [] \<longrightarrow> fst (hd calls) = retry_req e topic d i h avoid gen)
                        \<and> (\<forall>k. Suc k < length calls \<longrightarrow>
                              (\<exists>g. snd (calls ! k) = Inr g
                                    \<and> fst (calls ! Suc k) = retry_req e topic d i h avoid g))"],
       goal_cases)
  case (4 attempts gen w w1 gen' w2 r calls w3)
  then show ?case
    by (cases calls) (auto simp: nth_Cons split: nat.splits)
qed auto

lemma regen_loop_requests_of:
  assumes "regen_loop A e topic d i h avoid attempts gen w = (r, calls, w')"
  shows "calls \<noteq> [] \<longrightarrow> fst (hd calls) = retry_req e topic d i h avoid gen"
    and "\<forall>k. Suc k < length calls \<longrightarrow>
              (\<exists>g. snd (calls ! k) = Inr g
                    \<and> fst (calls ! Suc k) = retry_req e topic d i h avoid g)"
  using regen_loop_requests
          [where A = A and e = e and topic = topic and d = d and i = i and h = h
             and avoid = avoid and attempts = attempts and gen = gen and w = w] assms
  by simp_all

lemma regen_loop_total:
  assumes "\<forall>req w. \<exists>g w'. qgen A req w = (Inr g, w')"
  shows "\<exists>g. fst (regen_loop A e topic d i h avoid attempts gen w) = Inr g"
proof (rule regen_loop_rule [where P = "\<lambda>attempts gen w res. \<exists>g. fst res = Inr g"], goal_cases)
  case (3 attempts gen w w1 err w2)
  with assms show ?case by (metis Inl_Inr_False prod.inject)
qed auto

lemma regen_loop_exhaust:
  assumes "\<forall>req w. \<exists>g w'. qgen A req w = (Inr g, w')"
    and "\<forall>q w. \<not> fst (topic_guard_ok A e topic q w)"
  shows "int (length (fst (snd (regen_loop A e topic d i h avoid attempts gen w))))
           = max 0 (max_regen_attempts e - attempts)"
proof (rule regen_loop_rule
         [where P = "\<lambda>attempts gen w res.
                       int (length (fst (snd res))) = max 0 (max_regen_attempts e - attempts)"],
       goal_cases)
  case (2 attempts gen w w1)
  with assms(2) show ?case by (metis fst_conv)
next
  case (3 attempts gen w w1 err w2)
  with assms(1) show ?case by (metis Inl_Inr_False prod.inject)
qed auto

lemma regen_loop_fields:
  "\<forall>c \<in> set (fst (snd (regen_loop A e topic d i h avoid attempts gen w))).
     g_topic (fst c) = topic \<and> g_difficulty (fst c) = d \<and> g_need_hint (fst c) = h
     \<and> length (avoid_questions (fst c)) = length avoid + 1"
  by (rule regen_loop_rule
        [where P = "\<lambda>attempts gen w res. \<forall>c \<in> set (fst (snd res)).
                      g_topic (fst c) = topic \<and> g_difficulty (fst c) = d
                      \<and> g_need_hint (fst c) = h
                      \<and> length (avoid_questions (fst c)) = length avoid + 1"])
     (auto simp: retry_req_def gen_req_def)

subsection \<open>The generation step\<close>

lemma generate_question_cases:
  obtains (raised) err w1 where
      "qgen A (gen_req e topic d i h (last_n 8 (asked_questions_text e))) w = (Inl err, w1)"
      "generate_question A e topic d i h w
         = (Inl err, [(gen_req e topic d i h (last_n 8 (asked_questions_text e)), Inl err)], w1)"
  | (drafted) gen w1 r calls w2 where
      "qgen A (gen_req e topic d i h (last_n 8 (asked_questions_text e))) w = (Inr gen, w1)"
      "regen_loop A e topic d i h (last_n 8 (asked_questions_text e)) 0 gen w1 = (r, calls, w2)"
      "generate_question A e topic d i h w
         = (r, (gen_req e topic d i h (last_n 8 (asked_questions_text e)), Inr gen) # calls, w2)"
proof -
  obtain x w1 where q: "qgen A (gen_req e topic d i h (last_n 8 (asked_questions_text e))) w = (x, w1)"
    by (cases "qgen A (gen_req e topic d i h (last_n 8 (asked_questions_text e))) w")
  show thesis
  proof (cases x)
    case (Inl err)
    with q show ?thesis by (intro raised[of err w1]) (simp_all add: generate_question_def)
  next
    case (Inr gen)
    obtain r calls w2 where
      l: "regen_loop A e topic d i h (last_n 8 (asked_questions_text e)) 0 gen w1 = (r, calls, w2)"
      by (cases "regen_loop A e topic d i h (last_n 8 (asked_questions_text e)) 0 gen w1")
    with q Inr show ?thesis
      by (intro drafted[of gen w1 r calls w2]) (simp_all add: generate_question_def)
  qed
qed

lemma generate_question_fields:
  assumes "generate_question A e topic d i h w = (r, calls, w')"
  shows "\<forall>c \<in> set calls.
           g_topic (fst c) = topic \<and> g_difficulty (fst c) = d \<and> g_need_hint (fst c) = h"
proof (cases rule: generate_question_cases [of A e topic d i h w])
  case (raised err w1)
  with assms show ?thesis by (auto simp: gen_req_def)
next
  case (drafted gen w1 r' calls' w2)
  from regen_loop_fields [of A e topic d i h "last_n 8 (asked_questions_text e)" 0 gen w1]
    drafted(2)
  have "\<forall>c \<in> set calls'.
          g_topic (fst c) = topic \<and> g_difficulty (fst c) = d \<and> g_need_hint (fst c) = h"
    by simp
  with drafted(3) assms show ?thesis by (auto simp: gen_req_def)
qed

lemma generate_question_result:
  assumes "generate_question A e topic d i h w = (r, calls, w')"
  shows "calls \<noteq> [] \<and> r = snd (last calls)
         \<and> fst (hd calls) = gen_req e topic d i h (last_n 8 (asked_questions_text e))"
proof (cases rule: generate_question_cases [of A e topic d i h w])
  case (raised err w1)
  with assms show ?thesis by auto
next
  case (drafted gen w1 r' calls' w2)
  from regen_loop_result_of [OF drafted(2)]
  have "r' = (if calls' = [] then Inr gen else snd (last calls'))" .
  with drafted(3) assms show ?thesis by auto
qed

lemma generate_question_bound:
  "length (fst (snd (generate_question A e topic d i h w))) \<le> 1 + nat (max_regen_attempts e)"
proof (cases rule: generate_question_cases [of A e topic d i h w])
  case (raised err w1)
  then show ?thesis by simp
next
  case (drafted gen w1 r' calls' w2)
  from regen_loop_bound [of A e topic d i h "last_n 8 (asked_questions_text e)" 0 gen w1]
    drafted(2)
  have "int (length calls') \<le> max 0 (max_regen_attempts e)" by simp
  with drafted(3) show ?thesis by simp
qed

lemma generate_question_exhaust:
  assumes "\<forall>req w. \<exists>g w'. qgen A req w = (Inr g, w')"
    and "\<forall>q w. \<not> fst (topic_guard_ok A e topic q w)"
  shows "\<exists>g calls w'. generate_question A e topic d i h w = (Inr g, calls, w')
            \<and> length calls = 1 + nat (max_regen_attempts e)"
proof (cases rule: generate_question_cases [of A e topic d i h w])
  case (raised err w1)
  with assms(1) show ?thesis by (metis Inl_Inr_False prod.inject)
next
  case (drafted gen w1 r' calls' w2)
  from regen_loop_exhaust [OF assms, of d i h "last_n 8 (asked_questions_text e)" 0 gen w1]
    drafted(2)
  have "int (length calls') = max 0 (max_regen_attempts e)" by simp
  then have n: "length calls' = nat (max_regen_attempts e)" by simp
  from regen_loop_total [OF assms(1), of e topic d i h "last_n 8 (asked_questions_text e)" 0 gen w1]
    drafted(2)
  obtain g where "r' = Inr g" by auto
  with drafted(3) n show ?thesis by simp
qed

lemma generate_question_total:
  assumes "\<forall>req w. \<exists>g w'. qgen A req w = (Inr g, w')"
  shows "\<exists>g calls w'. generate_question A e topic d i h w = (Inr g, calls, w')"
proof (cases rule: generate_question_cases [of A e topic d i h w])
  case (raised err w1)
  with assms(1) show ?thesis by (metis Inl_Inr_False prod.inject)
next
  case (drafted gen w1 r' calls' w2)
  from regen_loop_total [OF assms(1), of e topic d i h "last_n 8 (asked_questions_text e)" 0 gen w1]
    drafted(2)
  obtain g where "r' = Inr g" by auto
  with drafted(3) show ?thesis by simp
qed

lemma generate_question_retries:
  assumes "generate_question A e topic d i h w = (r, calls, w')"
  shows "\<forall>k. Suc k < length calls \<longrightarrow>
           (\<exists>g. snd (calls ! k) = Inr g
                 \<and> fst (calls ! Suc k)
                     = retry_req e topic d i h (last_n 8 (asked_questions_text e)) g)"
proof (cases rule: generate_question_cases [of A e topic d i h w])
  case (raised err w1)
  with assms show ?thesis by auto
next
  case (drafted gen w1 r' calls' w2)
  let ?avoid = "last_n 8 (asked_questions_text e)"
  from regen_loop_requests_of [OF drafted(2)]
  have hd: "calls' \<noteq> [] \<longrightarrow> fst (hd calls') = retry_req e topic d i h ?avoid gen"
    and tl: "\<forall>k. Suc k < length calls' \<longrightarrow>
              (\<exists>g. snd (calls' ! k) = Inr g
                    \<and> fst (calls' ! Suc k) = retry_req e topic d i h ?avoid g)"
    by simp_all
  from drafted(3) assms
  have c: "calls = (gen_req e topic d i h ?avoid, Inr gen) # calls'" by simp
  show ?thesis
  proof (intro allI impI)
    fix k assume k: "Suc k < length calls"
    show "\<exists>g. snd (calls ! k) = Inr g
               \<and> fst (calls ! Suc k) = retry_req e topic d i h ?avoid g"
    proof (cases k)
      case 0
      with k c have "calls' \<noteq> []" by auto
      with hd have "fst (calls' ! 0) = retry_req e topic d i h ?avoid gen"
        by (simp add: hd_conv_nth)
      with 0 c show ?thesis by simp
    next
      case (Suc j)
      with k c have "Suc j < length calls'" by simp
      with tl Suc c show ?thesis by simp
    qed
  qed
qed

subsection \<open>The parts of a turn\<close>

lemma streaks_keep:
  "topic_plan (update_difficulty_by_streaks (update_streaks plan e)) = topic_plan e"
  "current_topic (update_difficulty_by_streaks (update_streaks plan e)) = current_topic e"
  "history (update_difficulty_by_streaks (update_streaks plan e)) = history e"
  "turn_id (update_difficulty_by_streaks (update_streaks plan e)) = turn_id e"
  "logger (update_difficulty_by_streaks (update_streaks plan e)) = logger e"
  "asked_questions_text (update_difficulty_by_streaks (update_streaks plan e))
     = asked_questions_text e"
  "max_regen_attempts (update_difficulty_by_streaks (update_streaks plan e))
     = max_regen_attempts e"
  "topic_index (state (update_difficulty_by_streaks (update_streaks plan e)))
     = topic_index (state e)"
  by (simp_all add: update_difficulty_by_streaks_def update_streaks_def Let_def)

lemma streaks_fields:
  "streak_good (state (push_user m e)) = streak_good (state e)"
  "streak_poor (state (push_user m e)) = streak_poor (state e)"
  "difficulty (push_user m e) = difficulty e"
  by (simp_all add: push_user_def)

lemma decide_topic_keeps:
  assumes "decide_topic plan e = Inr (pt, plan2, e3)"
  shows "topic_plan e3 = topic_plan e" and "history e3 = history e"
    and "turn_id e3 = turn_id e" and "logger e3 = logger e"
    and "asked_questions_text e3 = asked_questions_text e"
    and "max_regen_attempts e3 = max_regen_attempts e"
    and "streak_good (state e3) = streak_good (state e)"
    and "streak_poor (state e3) = streak_poor (state e)"
    and "score_0_100 plan2 = score_0_100 plan" and "intent plan2 = intent plan"
  using assms
  by (auto simp: decide_topic_def advance_topic_def Let_def
           split: if_splits option.splits sum.splits prod.splits)

lemma decide_topic_stay:
  assumes "decide_topic plan e = Inr (pt, plan2, e3)" and "\<not> should_move_on plan"
  shows "pt = current_topic e" and "topic_index (state e3) = topic_index (state e)"
    and "difficulty e3 = (if score_0_100 plan \<le> 45 then Easy else difficulty e)"
    and "need_hint plan2 = (if score_0_100 plan \<le> 45 then True else need_hint plan)"
  using assms by (auto simp: decide_topic_def split: if_splits)

lemma advance_topic_eq:
  "advance_topic e =
     (if topic_index (state e) + 1 < length (topic_plan e)
      then Inr (topic_plan e ! (topic_index (state e) + 1),
                e\<lparr>state := (state e)\<lparr>topic_index := topic_index (state e) + 1\<rparr>\<rparr>)
      else if topic_index (state e) < length (topic_plan e)
      then Inr (topic_plan e ! topic_index (state e), e)
      else Inl IndexError)"
  by (auto simp: advance_topic_def Let_def)

lemma advance_position:
  "i < n \<Longrightarrow> (if i + 1 < n then i + 1 else i) = min (i + 1) (n - 1)" for i n :: nat
  by (auto simp: min_def)

lemma decide_topic_move:
  assumes "decide_topic plan e = Inr (pt, plan2, e3)" and "should_move_on plan"
  shows "index_of (topic_plan e) pt = Some (topic_index (state e3))"
    and "difficulty e3 = difficulty e" and "plan2 = plan"
    and "next_topic plan \<in> set (topic_plan e) \<Longrightarrow> pt = next_topic plan"
    and "next_topic plan \<notin> set (topic_plan e) \<Longrightarrow>
           topic_index (state e) < length (topic_plan e)
           \<and> pt = topic_plan e ! min (topic_index (state e) + 1) (length (topic_plan e) - 1)"
proof -
  show "index_of (topic_plan e) pt = Some (topic_index (state e3))"
    and "difficulty e3 = difficulty e" and "plan2 = plan"
    and "next_topic plan \<in> set (topic_plan e) \<Longrightarrow> pt = next_topic plan"
    using assms
    by (auto simp: decide_topic_def advance_topic_eq
             split: if_splits option.splits)
  assume out: "next_topic plan \<notin> set (topic_plan e)"
  with assms have lt: "topic_index (state e) < length (topic_plan e)"
    by (auto simp: decide_topic_def advance_topic_eq split: if_splits)
  from assms out have
    "pt = topic_plan e ! (if topic_index (state e) + 1 < length (topic_plan e)
                          then topic_index (state e) + 1 else topic_index (state e))"
    by (auto simp: decide_topic_def advance_topic_eq split: if_splits option.splits)
  with lt show "topic_index (state e) < length (topic_plan e)
           \<and> pt = topic_plan e ! min (topic_index (state e) + 1) (length (topic_plan e) - 1)"
    by (simp only: advance_position)
qed

lemma decide_topic_total:
  assumes "topic_index (state e) < length (topic_plan e)"
  shows "\<exists>pt plan2 e3. decide_topic plan e = Inr (pt, plan2, e3)"
proof (cases "should_move_on plan")
  case False
  then show ?thesis by (simp add: decide_topic_def)
next
  case True
  show ?thesis
  proof (cases "next_topic plan \<in> set (topic_plan e)")
    case inside: True
    then obtain k where "index_of (topic_plan e) (next_topic plan) = Some k"
      using index_of_mem by fastforce
    with True inside show ?thesis by (simp add: decide_topic_def)
  next
    case outside: False
    define j where "j = (if topic_index (state e) + 1 < length (topic_plan e)
                          then topic_index (state e) + 1 else topic_index (state e))"
    have "j < length (topic_plan e)" using assms by (simp add: j_def)
    then obtain k where "index_of (topic_plan e) (topic_plan e ! j) = Some k"
      using index_of_mem [of "topic_plan e ! j" "topic_plan e"] by auto
    with True outside assms show ?thesis
      by (auto simp: decide_topic_def advance_topic_eq j_def)
  qed
qed

lemma step_returns:
  assumes "step A user_message e w = Inr (visible, e', calls, w')"
  obtains plan w1 planned_topic plan2 e3 gen w2 where
    "observer A (turn_request (push_user user_message (e\<lparr>turn_id := turn_id e + 1\<rparr>)) user_message) w
       = (Inr plan, w1)"
    "decide_topic plan (update_difficulty_by_streaks (update_streaks plan
        (push_user user_message (e\<lparr>turn_id := turn_id e + 1\<rparr>)))) = Inr (planned_topic, plan2, e3)"
    "generate_question A (e3\<lparr>current_topic := planned_topic\<rparr>) planned_topic (difficulty e3)
        (intent plan2) (need_hint plan2) w1 = (Inr gen, calls, w2)"
    "interviewer A
       \<lparr>r_history = history e3, r_observer_plan = plan2, r_last_user = user_message,
        r_question_text = question_text gen, r_hint = hint gen\<rparr> w2 = (Inr visible, w')"
    "e' = e3\<lparr>current_topic := planned_topic,
             asked_questions_text := asked_questions_text e3 @ [question_text gen],
             asked_topics := asked_topics e3 @ [planned_topic],
             history := history e3 @ [(Assistant, visible)],
             logger := add_turn
                         \<lparr>log_turn_id = turn_id e3, log_topic = planned_topic,
                          log_difficulty = difficulty e3, log_score_0_100 = score_0_100 plan2,
                          log_ideal_answer_short = ideal_answer_short gen,
                          log_agent_visible_message = visible, log_user_message = user_message,
                          log_internal_thoughts = internal_log planned_topic plan2 (difficulty e3)\<rparr>
                         (logger e3),
             state := (state e3)\<lparr>last_topic := Some planned_topic,
                                 last_intent := Some (intent plan2)\<rparr>\<rparr>"
  using assms
  unfolding step_def Let_def push_assistant_def
  by (auto split: prod.splits sum.splits)

lemma step_collapse:
  "\<not> isl r \<Longrightarrow>
     r = Inr (fst (projr r), fst (snd (projr r)), fst (snd (snd (projr r))),
              snd (snd (snd (projr r))))"
  by (cases r) auto

lemma session_collapse:
  "\<not> isl r \<Longrightarrow> r = Inr (fst (projr r), snd (projr r))"
  by (cases r) auto

lemma step_appends:
  assumes "step A user_message e w = Inr (visible, e', calls, w')"
  shows "history e' = history e @ [(User, user_message), (Assistant, visible)]"
    and "turn_id e' = turn_id e + 1"
    and "\<exists>t. turns (logger e') = turns (logger e) @ [t] \<and> log_turn_id t = turn_id e + 1
             \<and> log_user_message t = user_message \<and> log_agent_visible_message t = visible
             \<and> log_topic t = current_topic e' \<and> log_difficulty t = difficulty e'"
proof -
  from assms obtain plan w1 pt plan2 e3 gen w2 where
    d: "decide_topic plan (update_difficulty_by_streaks (update_streaks plan
          (push_user user_message (e\<lparr>turn_id := turn_id e + 1\<rparr>)))) = Inr (pt, plan2, e3)"
    and e': "history e' = history e3 @ [(Assistant, visible)]" "turn_id e' = turn_id e3"
       "\<exists>t. turns (logger e') = turns (logger e3) @ [t] \<and> log_turn_id t = turn_id e3
             \<and> log_user_message t = user_message \<and> log_agent_visible_message t = visible
             \<and> log_topic t = current_topic e' \<and> log_difficulty t = difficulty e'"
    by (elim step_returns) (simp add: add_turn_def)
  from decide_topic_keeps(2,3,4) [OF d]
  have "history e3 = history e @ [(User, user_message)]" "turn_id e3 = turn_id e + 1"
    "logger e3 = logger e"
    by (simp_all add: streaks_keep push_user_def)
  with e' show "history e' = history e @ [(User, user_message), (Assistant, visible)]"
    and "turn_id e' = turn_id e + 1"
    and "\<exists>t. turns (logger e') = turns (logger e) @ [t] \<and> log_turn_id t = turn_id e + 1
             \<and> log_user_message t = user_message \<and> log_agent_visible_message t = visible
             \<and> log_topic t = current_topic e' \<and> log_difficulty t = difficulty e'"
    by simp_all
qed

lemma run_steps_log:
  "run_steps A ms e w = Inr (e', w') \<Longrightarrow>
     turn_id e' = turn_id e + length ms
     \<and> map log_user_message (turns (logger e')) = map log_user_message (turns (logger e)) @ ms"
proof (induction ms arbitrary: e w)
  case Nil
  then show ?case by simp
next
  case (Cons m ms)
  from Cons.prems obtain visible e1 calls w1 where
    s: "step A m e w = Inr (visible, e1, calls, w1)" and r: "run_steps A ms e1 w1 = Inr (e', w')"
    by (auto split: sum.splits)
  from step_appends(2,3) [OF s] Cons.IH [OF r] show ?case by auto
qed

subsection \<open>Construction\<close>

lemma engine_init_returns:
  assumes "engine_init A pos gr ex nm lg mr w = Inr (e, calls, w')"
  obtains plan w1 first_q e1 where
    "planner A \<lparr>p_position = pos, p_grade = gr, p_experience = ex, p_lang = lg\<rparr> w
       = (Inr plan, w1)"
    "topic_plan e = (if topics plan = [] then default_topics else topics plan)"
    "topic_plan e \<noteq> []" "current_topic e = hd (topic_plan e)" "difficulty e = Easy"
    "state e = \<lparr>last_topic = None, last_intent = None, topic_index = 0,
                streak_good = 0, streak_poor = 0\<rparr>"
    "turn_id e = 0" "turns (logger e) = []" "max_regen_attempts e = mr"
    "history e1 = [(Assistant, build_interviewer_intro pos gr ex)]"
    "asked_questions_text e1 = []"
    "generate_question A e1 (hd (topic_plan e)) Easy ''warmup'' False w1
       = (Inr first_q, calls, w')"
    "history e = [(Assistant, build_interviewer_intro pos gr ex),
                  (Assistant, question_text first_q)]"
    "asked_questions_text e = [question_text first_q]"
    "asked_topics e = [hd (topic_plan e)]"
proof -
  obtain x w1 where
    p: "planner A \<lparr>p_position = pos, p_grade = gr, p_experience = ex, p_lang = lg\<rparr> w = (x, w1)"
    by (cases "planner A \<lparr>p_position = pos, p_grade = gr, p_experience = ex, p_lang = lg\<rparr> w")
  with assms obtain plan where x: "x = Inr plan"
    by (cases x) (simp_all add: engine_init_def)
  define tp where "tp = (if topics plan = [] then default_topics else topics plan)"
  have "tp \<noteq> []" by (simp add: tp_def default_topics_def)
  then obtain t0 rest where tp: "tp = t0 # rest" by (cases tp) simp_all
  define e1 where "e1 =
    \<lparr>position = pos, target_grade = gr, experience = ex, participant_name = nm, lang = lg,
     max_regen_attempts = mr,
     logger = \<lparr>logger_participant_name = nm, turns = [], final_feedback = None\<rparr>,
     turn_id = 0, history = [(Assistant, build_interviewer_intro pos gr ex)],
     state = \<lparr>last_topic = None, last_intent = None, topic_index = 0,
              streak_good = 0, streak_poor = 0\<rparr>,
     topic_plan = t0 # rest, current_topic = t0, difficulty = Easy,
     asked_questions_text = [], asked_topics = []\<rparr>"
  have e1f: "asked_questions_text e1 = []" "asked_topics e1 = []" "current_topic e1 = t0"
    "history e1 = [(Assistant, build_interviewer_intro pos gr ex)]" "difficulty e1 = Easy"
    by (simp_all add: e1_def)
  obtain r cs w2 where g: "generate_question A e1 t0 Easy ''warmup'' False w1 = (r, cs, w2)"
    by (cases "generate_question A e1 t0 Easy ''warmup'' False w1")
  have unfold: "engine_init A pos gr ex nm lg mr w =
     (case r of Inl err \<Rightarrow> Inl err
      | Inr first_q \<Rightarrow>
          Inr (e1\<lparr>asked_questions_text := [question_text first_q], asked_topics := [t0],
                  history := [(Assistant, build_interviewer_intro pos gr ex),
                              (Assistant, question_text first_q)]\<rparr>, cs, w2))"
    using p x tp g
    by (simp add: engine_init_def tp_def [symmetric] push_assistant_def e1_def [symmetric]
                  e1f split: sum.splits)
  with assms obtain first_q where r: "r = Inr first_q" by (cases r) simp_all
  with unfold assms have e: "e = e1\<lparr>asked_questions_text := [question_text first_q],
      asked_topics := [t0],
      history := [(Assistant, build_interviewer_intro pos gr ex),
                  (Assistant, question_text first_q)]\<rparr>"
    and c: "calls = cs" "w' = w2" by simp_all
  show thesis
    by (rule that [of plan w1 e1 first_q])
       (use p x tp g r e c in \<open>simp_all add: e1_def tp_def\<close>)
qed

subsection \<open>Invariants of a session\<close>

lemma reachable_cursor:
  "reachable A e \<Longrightarrow>
     topic_index (state e) < length (topic_plan e) \<and> current_topic e \<in> set (topic_plan e)"
proof (induction rule: reachable.induct)
  case (init pos gr ex nm lg mr w e calls w')
  then show ?case by (elim engine_init_returns) simp
next
  case (turn e user_message w visible e' calls w')
  from turn.hyps(2) obtain plan w1 pt plan2 e3 gen w2 where
    d: "decide_topic plan (update_difficulty_by_streaks (update_streaks plan
          (push_user user_message (e\<lparr>turn_id := turn_id e + 1\<rparr>)))) = Inr (pt, plan2, e3)"
    and e': "topic_plan e' = topic_plan e3" "current_topic e' = pt"
            "topic_index (state e') = topic_index (state e3)"
    by (elim step_returns) simp
  have tp: "topic_plan e3 = topic_plan e"
    using decide_topic_keeps(1) [OF d] by (simp add: streaks_keep push_user_def)
  show ?case
  proof (cases "should_move_on plan")
    case False
    from decide_topic_stay(1,2) [OF d False] turn.IH e' tp show ?thesis
      by (simp add: streaks_keep push_user_def)
  next
    case True
    from decide_topic_move(1) [OF d True]
    have "index_of (topic_plan e) pt = Some (topic_index (state e3))"
      by (simp add: streaks_keep push_user_def)
    from index_of_Some [OF this] e' tp show ?thesis by (metis nth_mem)
  qed
qed

lemma reachable_streaks:
  "reachable A e \<Longrightarrow>
     streak_good (state e) \<le> 1 \<and> streak_poor (state e) \<le> 1
     \<and> (streak_good (state e) = 0 \<or> streak_poor (state e) = 0)"
proof (induction rule: reachable.induct)
  case (init pos gr ex nm lg mr w e calls w')
  then show ?case by (elim engine_init_returns) simp
next
  case (turn e user_message w visible e' calls w')
  from turn.hyps(2) obtain plan w1 pt plan2 e3 gen w2 where
    d: "decide_topic plan (update_difficulty_by_streaks (update_streaks plan
          (push_user user_message (e\<lparr>turn_id := turn_id e + 1\<rparr>)))) = Inr (pt, plan2, e3)"
    and e': "streak_good (state e') = streak_good (state e3)"
            "streak_poor (state e') = streak_poor (state e3)"
    by (elim step_returns) simp
  from decide_topic_keeps(7,8) [OF d] e' turn.IH show ?case
    by (auto simp: update_difficulty_by_streaks_def update_streaks_def Let_def push_user_def)
qed

lemma reachable_turn_ids:
  "reachable A e \<Longrightarrow> map log_turn_id (turns (logger e)) = [1..<Suc (turn_id e)]"
proof (induction rule: reachable.induct)
  case (init pos gr ex nm lg mr w e calls w')
  then show ?case by (elim engine_init_returns) simp
next
  case (turn e user_message w visible e' calls w')
  from turn.hyps(2) obtain plan w1 pt plan2 e3 gen w2 where
    d: "decide_topic plan (update_difficulty_by_streaks (update_streaks plan
          (push_user user_message (e\<lparr>turn_id := turn_id e + 1\<rparr>)))) = Inr (pt, plan2, e3)"
    and e': "turn_id e' = turn_id e3"
            "\<exists>t. log_turn_id t = turn_id e3 \<and> turns (logger e') = turns (logger e3) @ [t]"
    by (elim step_returns) (simp add: add_turn_def)
  from decide_topic_keeps(3,4) [OF d] e' turn.IH show ?case
    by (auto simp: streaks_keep push_user_def)
qed

subsection \<open>Sessions with the scripted collaborators\<close>

lemma run_steps_reachable:
  "reachable A e \<Longrightarrow> run_steps A ms e w = Inr (e', w') \<Longrightarrow> reachable A e'"
proof (induction ms arbitrary: e w)
  case Nil
  then show ?case by simp
next
  case (Cons m ms)
  from Cons.prems(2) obtain visible e1 calls w1 where
    s: "step A m e w = Inr (visible, e1, calls, w1)" and r: "run_steps A ms e1 w1 = Inr (e', w')"
    by (auto split: sum.splits)
  from reachable.turn [OF Cons.prems(1) s] r show ?case by (rule Cons.IH)
qed

lemma session_reachable:
  assumes "\<not> isl (session ts guard_notes mr msgs script)"
  shows "reachable (scripted ts guard_notes) (fst (projr (session ts guard_notes mr msgs script)))"
proof -
  from assms obtain e w where s: "session ts guard_notes mr msgs script = Inr (e, w)"
    by (cases "session ts guard_notes mr msgs script") auto
  then obtain e0 calls w0 where
    i: "engine_init (scripted ts guard_notes) ''Backend Developer'' ''Junior''
          ''Python basics'' ''Candidate'' ''ru'' mr script = Inr (e0, calls, w0)"
    and r: "run_steps (scripted ts guard_notes) msgs e0 w0 = Inr (e, w)"
    by (auto simp: session_def split: sum.splits)
  from run_steps_reachable [OF reachable.init [OF i] r] s show ?thesis by simp
qed

lemma scripted_guard_rejects:
  "contains_str ''mismatch'' (lower guard_notes)
   \<Longrightarrow> \<not> fst (topic_guard_ok (scripted ts guard_notes) x topic q v)"
  by (simp add: topic_guard_ok_def scripted_def Let_def)

section \<open>The override for a weak answer\<close>

text \<open>
  Claim C1 says that a score of at most 45 forces the difficulty of the turn to easy and the
  need-hint flag passed to the generator to true, whether or not the evaluation says to
  move on. In \<open>step\<close> the override stands in the branch \<open>if not plan.should_move_on\<close>.
  Here the candidate has given two strong answers, so the difficulty is medium; the third
  answer scores 30 and the evaluation says to move on to a topic of the plan. The
  difficulty stays medium and the generator is called without a hint.
\<close>

theorem weak_answer_override_counterexample:
  "let A = scripted [] [];
       e = fst (projr (session [] [] 1 [''lists are mutable'', ''a dict maps keys'']
                  [evaluation 80 Good True ''problem_solving'',
                   evaluation 80 Good True ''tools_workflow'']));
       ev = evaluation 30 Poor True ''general_basics'';
       s = step A ''no idea'' e [ev];
       e' = fst (snd (projr s));
       calls = fst (snd (snd (projr s)))
   in reachable A e \<and> difficulty e = Medium \<and> \<not> isl s
      \<and> observer A (turn_request (push_user ''no idea'' (e\<lparr>turn_id := turn_id e + 1\<rparr>))
           ''no idea'') [ev] = (Inr ev, [])
      \<and> score_0_100 ev \<le> 45
      \<and> difficulty e' = Medium
      \<and> log_difficulty (last (turns (logger e'))) = Medium
      \<and> map (\<lambda>c. (g_difficulty (fst c), g_need_hint (fst c))) calls = [(Medium, False)]"
proof -
  define A where "A = scripted [] []"
  define e where "e = fst (projr (session [] [] 1 [''lists are mutable'', ''a dict maps keys'']
                  [evaluation 80 Good True ''problem_solving'',
                   evaluation 80 Good True ''tools_workflow'']))"
  define ev where "ev = evaluation 30 Poor True ''general_basics''"
  define s where "s = step A ''no idea'' e [ev]"
  have "\<not> isl (session [] [] 1 [''lists are mutable'', ''a dict maps keys'']
                  [evaluation 80 Good True ''problem_solving'',
                   evaluation 80 Good True ''tools_workflow''])" by code_simp
  then have r: "reachable A e" unfolding A_def e_def by (rule session_reachable)
  have d: "difficulty e = Medium" unfolding e_def by code_simp
  have ns: "\<not> isl s" unfolding s_def e_def A_def ev_def by code_simp
  have o: "observer A (turn_request (push_user ''no idea'' (e\<lparr>turn_id := turn_id e + 1\<rparr>))
           ''no idea'') [ev] = (Inr ev, [])"
    by (simp add: A_def scripted_def turn_request_def)
  have sc: "score_0_100 ev \<le> 45" by (simp add: ev_def evaluation_def)
  have d': "difficulty (fst (snd (projr s))) = Medium"
    unfolding s_def e_def A_def ev_def by code_simp
  have l: "log_difficulty (last (turns (logger (fst (snd (projr s)))))) = Medium"
    unfolding s_def e_def A_def ev_def by code_simp
  have c: "map (\<lambda>c. (g_difficulty (fst c), g_need_hint (fst c))) (fst (snd (snd (projr s))))
             = [(Medium, False)]"
    unfolding s_def e_def A_def ev_def by code_simp
  from r d ns o sc d' l c show ?thesis
    unfolding Let_def A_def [symmetric] e_def [symmetric] ev_def [symmetric] s_def [symmetric]
    by simp
qed

text \<open>
  Claim C1 as amended: on a turn whose evaluation \<open>plan\<close> has a score of at most 45 and
  says not to move on, whatever the streaks are, the difficulty committed for the turn (in
  the engine and in the log record) is easy, and every call of the generator for the turn
  is made with difficulty easy and the need-hint flag true.
\<close>

theorem weak_answer_override:
  assumes "step A user_message e w = Inr (visible, e', calls, w')"
    and "observer A (turn_request (push_user user_message (e\<lparr>turn_id := turn_id e + 1\<rparr>))
           user_message) w = (Inr plan, w1)"
    and "score_0_100 plan \<le> 45" and "\<not> should_move_on plan"
  shows "difficulty e' = Easy
         \<and> log_difficulty (last (turns (logger e'))) = Easy
         \<and> calls \<noteq> []
         \<and> (\<forall>c \<in> set calls. g_difficulty (fst c) = Easy \<and> g_need_hint (fst c))"
proof -
  from assms(1) obtain plan' w1' pt plan2 e3 gen w2 where
    o: "observer A (turn_request (push_user user_message (e\<lparr>turn_id := turn_id e + 1\<rparr>))
           user_message) w = (Inr plan', w1')"
    and d: "decide_topic plan' (update_difficulty_by_streaks (update_streaks plan'
          (push_user user_message (e\<lparr>turn_id := turn_id e + 1\<rparr>)))) = Inr (pt, plan2, e3)"
    and g: "generate_question A (e3\<lparr>current_topic := pt\<rparr>) pt (difficulty e3)
        (intent plan2) (need_hint plan2) w1' = (Inr gen, calls, w2)"
    and e': "difficulty e' = difficulty e3"
       "log_difficulty (last (turns (logger e'))) = difficulty e3"
    by (elim step_returns) (simp add: add_turn_def)
  from o assms(2) have p: "plan' = plan" by simp
  from decide_topic_stay(3,4) [OF d] p assms(3,4)
  have easy: "difficulty e3 = Easy" and hint: "need_hint plan2" by simp_all
  have "calls \<noteq> []"
    using g by (cases rule: generate_question_cases
                  [of A "e3\<lparr>current_topic := pt\<rparr>" pt "difficulty e3" "intent plan2"
                      "need_hint plan2" w1']) auto
  with generate_question_fields [OF g] easy hint e' show ?thesis by simp
qed

text \<open>The same session, with an evaluation that says to stay on the topic.\<close>

theorem weak_answer_override_witness:
  "let A = scripted [] [];
       e = fst (projr (session [] [] 1 [''lists are mutable'', ''a dict maps keys'']
                  [evaluation 80 Good True ''problem_solving'',
                   evaluation 80 Good True ''tools_workflow'']));
       ev = evaluation 30 Poor False ''general_basics'';
       s = step A ''no idea'' e [ev];
       e' = fst (snd (projr s));
       calls = fst (snd (snd (projr s)))
   in difficulty e = Medium \<and> \<not> isl s
      \<and> observer A (turn_request (push_user ''no idea'' (e\<lparr>turn_id := turn_id e + 1\<rparr>))
           ''no idea'') [ev] = (Inr ev, [])
      \<and> score_0_100 ev \<le> 45 \<and> \<not> should_move_on ev
      \<and> difficulty e' = Easy
      \<and> log_difficulty (last (turns (logger e'))) = Easy
      \<and> map (\<lambda>c. (g_difficulty (fst c), g_need_hint (fst c))) calls = [(Easy, True)]"
proof -
  define A where "A = scripted [] []"
  define e where "e = fst (projr (session [] [] 1 [''lists are mutable'', ''a dict maps keys'']
                  [evaluation 80 Good True ''problem_solving'',
                   evaluation 80 Good True ''tools_workflow'']))"
  define ev where "ev = evaluation 30 Poor False ''general_basics''"
  define s where "s = step A ''no idea'' e [ev]"
  have d: "difficulty e = Medium" unfolding e_def by code_simp
  have ns: "\<not> isl s" unfolding s_def e_def A_def ev_def by code_simp
  have es: "step A ''no idea'' e [ev]
      = Inr (fst (projr s), fst (snd (projr s)), fst (snd (snd (projr s))),
              snd (snd (snd (projr s))))"
    using step_collapse [OF ns] unfolding s_def [symmetric] .
  have o: "observer A (turn_request (push_user ''no idea'' (e\<lparr>turn_id := turn_id e + 1\<rparr>))
           ''no idea'') [ev] = (Inr ev, [])"
    by (simp add: A_def scripted_def turn_request_def)
  have sc: "score_0_100 ev \<le> 45" "\<not> should_move_on ev" by (simp_all add: ev_def evaluation_def)
  have c: "map (\<lambda>c. (g_difficulty (fst c), g_need_hint (fst c))) (fst (snd (snd (projr s))))
             = [(Easy, True)]"
    unfolding s_def e_def A_def ev_def by code_simp
  from weak_answer_override [OF es o sc] d ns o sc c show ?thesis
    unfolding Let_def A_def [symmetric] e_def [symmetric] ev_def [symmetric] s_def [symmetric]
    by simp
qed

section \<open>The final report\<close>

text \<open>
  Claim C2 says that \<open>build_feedback\<close> returns the fallback report, and does not raise,
  when the reply of the model cannot be parsed as JSON, for example when it has no braces.
  \<open>build_feedback\<close> catches ValidationError only. For a reply \<open>raw\<close> that \<open>json.loads\<close>
  rejects and that has no opening brace, \<open>_safe_json_load\<close> raises JSONDecodeError again,
  \<open>build_feedback\<close> lets it pass, and so does \<open>finish\<close> of an engine whose hiring manager
  is the \<open>HiringManagerAgent\<close>. The fallback report is what a reply gets that parses and
  fails the validation; and \<open>build_plan\<close>, which catches every exception, answers the same
  unparsable reply with its default plan.
\<close>

theorem build_feedback_raises:
  assumes "json_loads (strip raw) = None" and "CHR ''{'' \<notin> set raw"
    and "hiring_manager A = HiringManagerAgent json_loads validate chat"
    and "chat \<lparr>f_position = position e, f_target_grade = target_grade e,
               f_experience = experience e, f_turns = turns (logger e),
               f_transcript = history e\<rparr> w = (Inr raw, w1)"
  shows "build_feedback json_loads validate raw = Inl JSONDecodeError
         \<and> finish A e w = Inl JSONDecodeError
         \<and> (\<forall>raw' data. safe_json_load json_loads raw' = Inr data \<and> validate data = None
               \<longrightarrow> build_feedback json_loads validate raw' = Inr (fallback_feedback raw'))
         \<and> topics (build_plan json_loads validate_plan raw) = default_topics"
proof -
  from assms(1,2) have l: "safe_json_load json_loads raw = Inl JSONDecodeError"
    by (rule safe_json_load_no_brace)
  then have b: "build_feedback json_loads validate raw = Inl JSONDecodeError"
    by (simp add: build_feedback_def load_and_validate_def)
  with assms(3,4) have f: "finish A e w = Inl JSONDecodeError"
    by (simp add: finish_def HiringManagerAgent_def)
  from l have p: "topics (build_plan json_loads validate_plan raw) = default_topics"
    by (simp add: build_plan_def load_and_validate_def)
  from b f p show ?thesis
    by (simp add: build_feedback_def load_and_validate_def)
qed

text \<open>
  A reply in plain words, at the end of a session that has just been constructed. The
  parser stands for \<open>json.loads\<close> on texts that are not JSON.
\<close>

theorem build_feedback_raises_witness:
  "let json_loads = (\<lambda>s. None :: unit option);
       validate = (\<lambda>data. None);
       raw = ''Sorry, I cannot write the report.'';
       chat = (\<lambda>req w. (Inr raw, w));
       A = (scripted [] [])\<lparr>hiring_manager := HiringManagerAgent json_loads validate chat\<rparr>;
       e = fst (projr (session [] [] 1 [] []))
   in json_loads (strip raw) = None \<and> CHR ''{'' \<notin> set raw
      \<and> build_feedback json_loads validate raw = Inl JSONDecodeError
      \<and> finish A e [] = Inl JSONDecodeError"
proof -
  define json_loads where "json_loads = (\<lambda>s :: string. None :: unit option)"
  define validate where "validate = (\<lambda>data :: unit. None :: FinalFeedback option)"
  define raw where "raw = ''Sorry, I cannot write the report.''"
  define chat where
    "chat = (\<lambda>(req :: feedback_request) (w :: ObserverOutput list). (Inr raw :: error + string, w))"
  define A where
    "A = (scripted [] [])\<lparr>hiring_manager := HiringManagerAgent json_loads validate chat\<rparr>"
  define e where "e = fst (projr (session [] [] 1 [] []))"
  have 1: "json_loads (strip raw) = None" by (simp add: json_loads_def)
  have 2: "CHR ''{'' \<notin> set raw" by (simp add: raw_def)
  have 3: "hiring_manager A = HiringManagerAgent json_loads validate chat" by (simp add: A_def)
  have 4: "chat \<lparr>f_position = position e, f_target_grade = target_grade e,
               f_experience = experience e, f_turns = turns (logger e),
               f_transcript = history e\<rparr> [] = (Inr raw, [])" by (simp add: chat_def)
  from build_feedback_raises [OF 1 2 3 4] 1 2 show ?thesis
    unfolding Let_def json_loads_def [symmetric] validate_def [symmetric] raw_def [symmetric]
      chat_def [symmetric] A_def [symmetric] e_def [symmetric]
    by simp
qed

section \<open>Streaks and difficulty\<close>

text \<open>
  Claim C3: in a turn the streaks are updated first (a score of at least 75 adds one to
  \<open>streak_good\<close> and zeroes \<open>streak_poor\<close>; otherwise a score of at most 45 or a quality
  poor or unknown adds one to \<open>streak_poor\<close> and zeroes \<open>streak_good\<close>; otherwise both
  stay), and then the transition is taken: with \<open>streak_good\<close> at 2 or more the difficulty
  goes up one step (hard stays hard) and \<open>streak_good\<close> becomes 0, else with
  \<open>streak_poor\<close> at 2 or more it goes down one step (easy stays easy) and \<open>streak_poor\<close>
  becomes 0. The two functions of the code compute the rule of the specification at every
  reachable state; the streaks after the turn are the ones so computed, and so is the
  difficulty unless the override for a weak answer sets it to easy. The difficulty is one
  of the three levels.
\<close>

theorem streaks_then_transition:
  assumes "reachable A e"
    and "step A user_message e w = Inr (visible, e', calls, w')"
    and "observer A (turn_request (push_user user_message (e\<lparr>turn_id := turn_id e + 1\<rparr>))
           user_message) w = (Inr plan, w1)"
  shows "(let e2 = update_difficulty_by_streaks (update_streaks plan e)
          in (difficulty e2, streak_good (state e2), streak_poor (state e2))
               = spec_transition
                   (difficulty e,
                    spec_streak_update (score_0_100 plan) (answer_quality plan)
                      (streak_good (state e), streak_poor (state e)))
             \<and> streak_good (state e') = streak_good (state e2)
             \<and> streak_poor (state e') = streak_poor (state e2)
             \<and> difficulty e'
                 = (if \<not> should_move_on plan \<and> score_0_100 plan \<le> 45 then Easy
                    else difficulty e2))
         \<and> difficulty e' \<in> {Easy, Medium, Hard}"
proof -
  let ?e1 = "push_user user_message (e\<lparr>turn_id := turn_id e + 1\<rparr>)"
  let ?e2 = "update_difficulty_by_streaks (update_streaks plan e)"
  let ?e2' = "update_difficulty_by_streaks (update_streaks plan ?e1)"
  from assms(2) obtain plan' w1' pt plan2 e3 gen w2 where
    o: "observer A (turn_request ?e1 user_message) w = (Inr plan', w1')"
    and d': "decide_topic plan' (update_difficulty_by_streaks (update_streaks plan' ?e1))
               = Inr (pt, plan2, e3)"
    and e': "difficulty e' = difficulty e3"
       "streak_good (state e') = streak_good (state e3)"
       "streak_poor (state e') = streak_poor (state e3)"
    by (elim step_returns) simp
  from o assms(3) have "plan' = plan" by simp
  with d' have d: "decide_topic plan ?e2' = Inr (pt, plan2, e3)" by simp
  have same: "difficulty ?e2' = difficulty ?e2"
    "streak_good (state ?e2') = streak_good (state ?e2)"
    "streak_poor (state ?e2') = streak_poor (state ?e2)"
    by (simp_all add: update_difficulty_by_streaks_def update_streaks_def Let_def push_user_def)
  have rule: "(difficulty ?e2, streak_good (state ?e2), streak_poor (state ?e2))
               = spec_transition
                   (difficulty e,
                    spec_streak_update (score_0_100 plan) (answer_quality plan)
                      (streak_good (state e), streak_poor (state e)))"
    using reachable_streaks [OF assms(1)]
    by (cases "difficulty e")
       (auto simp: update_difficulty_by_streaks_def update_streaks_def Let_def
                   spec_transition_def spec_streak_update_def promote_def demote_def)
  have diff: "difficulty e3
                = (if \<not> should_move_on plan \<and> score_0_100 plan \<le> 45 then Easy
                   else difficulty ?e2)"
  proof (cases "should_move_on plan")
    case True
    with decide_topic_move(2) [OF d] same show ?thesis by simp
  next
    case False
    with decide_topic_stay(3) [OF d] same show ?thesis by simp
  qed
  have lev: "difficulty e' \<in> {Easy, Medium, Hard}" by (cases "difficulty e'") simp_all
  from decide_topic_keeps(7,8) [OF d] same e' rule diff lev show ?thesis
    by (simp add: Let_def)
qed

text \<open>
  The second strong answer in a row: the good streak reaches 2, the difficulty goes from
  easy to medium and the streak is reset.
\<close>

theorem streaks_then_transition_witness:
  "let A = scripted [] [];
       e = fst (projr (session [] [] 1 [''lists are mutable'']
                  [evaluation 80 Good True ''problem_solving'']));
       ev = evaluation 80 Good True ''tools_workflow'';
       s = step A ''a dict maps keys'' e [ev];
       e' = fst (snd (projr s))
   in reachable A e \<and> \<not> isl s
      \<and> observer A (turn_request (push_user ''a dict maps keys'' (e\<lparr>turn_id := turn_id e + 1\<rparr>))
           ''a dict maps keys'') [ev] = (Inr ev, [])
      \<and> (difficulty e, streak_good (state e), streak_poor (state e)) = (Easy, 1, 0)
      \<and> spec_transition (Easy, spec_streak_update 80 Good (1, 0)) = (Medium, 0, 0)
      \<and> (difficulty e', streak_good (state e'), streak_poor (state e')) = (Medium, 0, 0)"
proof -
  define A where "A = scripted [] []"
  define e where "e = fst (projr (session [] [] 1 [''lists are mutable'']
                  [evaluation 80 Good True ''problem_solving'']))"
  define ev where "ev = evaluation 80 Good True ''tools_workflow''"
  define s where "s = step A ''a dict maps keys'' e [ev]"
  have "\<not> isl (session [] [] 1 [''lists are mutable'']
                  [evaluation 80 Good True ''problem_solving''])" by code_simp
  then have r: "reachable A e" unfolding A_def e_def by (rule session_reachable)
  have ns: "\<not> isl s" unfolding s_def e_def A_def ev_def by code_simp
  have es: "step A ''a dict maps keys'' e [ev]
      = Inr (fst (projr s), fst (snd (projr s)), fst (snd (snd (projr s))),
              snd (snd (snd (projr s))))"
    using step_collapse [OF ns] unfolding s_def [symmetric] .
  have o: "observer A (turn_request (push_user ''a dict maps keys'' (e\<lparr>turn_id := turn_id e + 1\<rparr>))
           ''a dict maps keys'') [ev] = (Inr ev, [])"
    by (simp add: A_def scripted_def turn_request_def)
  have st: "(difficulty e, streak_good (state e), streak_poor (state e)) = (Easy, 1, 0)"
    unfolding e_def by code_simp
  have sp: "spec_transition (Easy, spec_streak_update 80 Good (1, 0)) = (Medium, 0, 0)"
    by (simp add: spec_transition_def spec_streak_update_def promote_def)
  have ev: "score_0_100 ev = 80" "answer_quality ev = Good" "should_move_on ev"
    by (simp_all add: ev_def evaluation_def)
  from streaks_then_transition [OF r es o] st sp ev
  have "(difficulty (fst (snd (projr s))), streak_good (state (fst (snd (projr s)))),
         streak_poor (state (fst (snd (projr s))))) = (Medium, 0, 0)"
    by (simp add: Let_def)
  with r ns o st sp show ?thesis
    unfolding Let_def A_def [symmetric] e_def [symmetric] ev_def [symmetric] s_def [symmetric]
    by simp
qed

section \<open>The committed topic\<close>

text \<open>
  Claim C4: at every reachable state the cursor \<open>topic_index\<close> is a valid offset into the
  topic plan, and the topic a turn commits (the new \<open>current_topic\<close>, which is also the
  topic of the turn's log record and of every request sent to the generator) is a member
  of the plan, the plan itself being left as it was; when the evaluation \<open>plan\<close> of the
  turn said not to move on, the committed topic is the one committed before.
\<close>

theorem committed_topic_in_plan:
  assumes "reachable A e"
    and "step A user_message e w = Inr (visible, e', calls, w')"
    and "observer A (turn_request (push_user user_message (e\<lparr>turn_id := turn_id e + 1\<rparr>))
           user_message) w = (Inr plan, w1)"
  shows "topic_index (state e) < length (topic_plan e)
         \<and> current_topic e \<in> set (topic_plan e)
         \<and> topic_plan e' = topic_plan e
         \<and> topic_index (state e') < length (topic_plan e')
         \<and> current_topic e' \<in> set (topic_plan e')
         \<and> (\<not> should_move_on plan \<longrightarrow> current_topic e' = current_topic e)
         \<and> log_topic (last (turns (logger e'))) = current_topic e'
         \<and> (\<forall>c \<in> set calls. g_topic (fst c) = current_topic e')"
proof -
  from assms(2) obtain plan' w1' pt plan2 e3 gen w2 where
    o: "observer A (turn_request (push_user user_message (e\<lparr>turn_id := turn_id e + 1\<rparr>))
           user_message) w = (Inr plan', w1')"
    and d: "decide_topic plan' (update_difficulty_by_streaks (update_streaks plan'
          (push_user user_message (e\<lparr>turn_id := turn_id e + 1\<rparr>)))) = Inr (pt, plan2, e3)"
    and g: "generate_question A (e3\<lparr>current_topic := pt\<rparr>) pt (difficulty e3)
        (intent plan2) (need_hint plan2) w1' = (Inr gen, calls, w2)"
    and e': "topic_plan e' = topic_plan e3" "current_topic e' = pt"
       "log_topic (last (turns (logger e'))) = pt"
    by (elim step_returns) (simp add: add_turn_def)
  from o assms(3) have p: "plan' = plan" by simp
  have tp: "topic_plan e3 = topic_plan e"
    using decide_topic_keeps(1) [OF d] by (simp add: streaks_keep push_user_def)
  have stay: "current_topic e' = current_topic e" if "\<not> should_move_on plan"
    using decide_topic_stay(1) [OF d] that p e' by (simp add: streaks_keep push_user_def)
  from reachable_cursor [OF assms(1)] reachable_cursor [OF reachable.turn [OF assms(1,2)]]
    generate_question_fields [OF g] e' tp stay
  show ?thesis by simp
qed

text \<open>
  A turn on which the evaluation says to stay: the topic remains the first topic of the
  default plan.
\<close>

theorem committed_topic_in_plan_witness:
  "let A = scripted [] [];
       e = fst (projr (session [] [] 1 [] []));
       ev = evaluation 60 Partial False ''databases'';
       s = step A ''it depends'' e [ev];
       e' = fst (snd (projr s))
   in reachable A e \<and> \<not> isl s
      \<and> observer A (turn_request (push_user ''it depends'' (e\<lparr>turn_id := turn_id e + 1\<rparr>))
           ''it depends'') [ev] = (Inr ev, [])
      \<and> \<not> should_move_on ev
      \<and> current_topic e' = ''general_basics''
      \<and> current_topic e' = current_topic e
      \<and> current_topic e' \<in> set (topic_plan e')
      \<and> topic_index (state e') < length (topic_plan e')"
proof -
  define A where "A = scripted [] []"
  define e where "e = fst (projr (session [] [] 1 [] []))"
  define ev where "ev = evaluation 60 Partial False ''databases''"
  define s where "s = step A ''it depends'' e [ev]"
  have "\<not> isl (session [] [] 1 [] [])" by code_simp
  then have r: "reachable A e" unfolding A_def e_def by (rule session_reachable)
  have ns: "\<not> isl s" unfolding s_def e_def A_def ev_def by code_simp
  have es: "step A ''it depends'' e [ev]
      = Inr (fst (projr s), fst (snd (projr s)), fst (snd (snd (projr s))),
              snd (snd (snd (projr s))))"
    using step_collapse [OF ns] unfolding s_def [symmetric] .
  have o: "observer A (turn_request (push_user ''it depends'' (e\<lparr>turn_id := turn_id e + 1\<rparr>))
           ''it depends'') [ev] = (Inr ev, [])"
    by (simp add: A_def scripted_def turn_request_def)
  have stay: "\<not> should_move_on ev" by (simp add: ev_def evaluation_def)
  have c: "current_topic (fst (snd (projr s))) = ''general_basics''"
    unfolding s_def e_def A_def ev_def by code_simp
  from committed_topic_in_plan [OF r es o] stay r ns o c show ?thesis
    unfolding Let_def A_def [symmetric] e_def [symmetric] ev_def [symmetric] s_def [symmetric]
    by auto
qed

section \<open>The avoid list\<close>

text \<open>
  Claim C5 says that on every call of the generator, retries of the consistency guard
  included, the avoid list has at most 8 entries and is the list of the most recent
  distinct drafted questions in order. A retry is called with \<open>avoid + [gen.question_text]\<close>.
  Here the candidate has answered seven times, so eight questions have been asked, and the
  guard rejects every draft: the retry of the eighth turn gets 9 entries. The generator
  has returned the same question several times, and the list repeats it.
\<close>

theorem avoid_list_counterexample:
  "let A = scripted [] ''Mismatch: the question is about SQL.'';
       r = session [] ''Mismatch: the question is about SQL.'' 1
             [''one'', ''two'', ''three'', ''four'', ''five'', ''six'', ''seven'']
             (replicate 7 (evaluation 60 Partial False []));
       e = fst (projr r);
       s = step A ''eight'' e [evaluation 60 Partial False []];
       calls = fst (snd (snd (projr s)))
   in reachable A e \<and> length (asked_questions_text e) = 8 \<and> \<not> isl s
      \<and> map (\<lambda>c. length (avoid_questions (fst c))) calls = [8, 9]
      \<and> \<not> distinct (avoid_questions (fst (hd calls)))"
proof -
  have run: "let A = scripted [] ''Mismatch: the question is about SQL.'';
       r = session [] ''Mismatch: the question is about SQL.'' 1
             [''one'', ''two'', ''three'', ''four'', ''five'', ''six'', ''seven'']
             (replicate 7 (evaluation 60 Partial False []));
       e = fst (projr r);
       s = step A ''eight'' e [evaluation 60 Partial False []];
       calls = fst (snd (snd (projr s)))
   in \<not> isl r \<and> length (asked_questions_text e) = 8 \<and> \<not> isl s
      \<and> map (\<lambda>c. length (avoid_questions (fst c))) calls = [8, 9]
      \<and> \<not> distinct (avoid_questions (fst (hd calls)))"
    by code_simp
  then have "\<not> isl (session [] ''Mismatch: the question is about SQL.'' 1
             [''one'', ''two'', ''three'', ''four'', ''five'', ''six'', ''seven'']
             (replicate 7 (evaluation 60 Partial False [])))"
    unfolding Let_def by (rule conjunct1)
  then have "reachable (scripted [] ''Mismatch: the question is about SQL.'')
     (fst (projr (session [] ''Mismatch: the question is about SQL.'' 1
             [''one'', ''two'', ''three'', ''four'', ''five'', ''six'', ''seven'']
             (replicate 7 (evaluation 60 Partial False [])))))"
    by (rule session_reachable)
  with run show ?thesis unfolding Let_def by blast
qed

text \<open>
  Claim C5 as amended: in every question-generation step the avoid list of the first call
  of the generator is the last 8 entries of the list of asked questions (all of them when
  there are fewer), in order, and so has at most 8 entries; every retry of the consistency
  guard is called with that same list followed by the draft the guard has just rejected.
  The generation step of a turn starts from the questions asked before the turn.
\<close>

theorem avoid_list:
  assumes "generate_question A e topic d i h w = (r, calls, w')"
    and "step A user_message x v = Inr (visible, x', calls', v')"
  shows "calls \<noteq> []
         \<and> avoid_questions (fst (hd calls)) = last_n 8 (asked_questions_text e)
         \<and> length (avoid_questions (fst (hd calls))) \<le> 8
         \<and> (\<forall>k. Suc k < length calls \<longrightarrow>
               (\<exists>g. snd (calls ! k) = Inr g
                     \<and> avoid_questions (fst (calls ! Suc k))
                         = last_n 8 (asked_questions_text e) @ [question_text g]))
         \<and> avoid_questions (fst (hd calls')) = last_n 8 (asked_questions_text x)"
proof -
  from generate_question_result [OF assms(1)]
  have c: "calls \<noteq> []"
    and h: "avoid_questions (fst (hd calls)) = last_n 8 (asked_questions_text e)"
    by (simp_all add: gen_req_def)
  have l: "length (last_n 8 (asked_questions_text e)) \<le> 8" by (simp add: last_n_def)
  from generate_question_retries [OF assms(1)]
  have t: "\<forall>k. Suc k < length calls \<longrightarrow>
               (\<exists>g. snd (calls ! k) = Inr g
                     \<and> avoid_questions (fst (calls ! Suc k))
                         = last_n 8 (asked_questions_text e) @ [question_text g])"
    by (auto simp: retry_req_def gen_req_def)
  from assms(2) obtain plan w1 pt plan2 e3 gen w2 where
    d: "decide_topic plan (update_difficulty_by_streaks (update_streaks plan
          (push_user user_message (x\<lparr>turn_id := turn_id x + 1\<rparr>)))) = Inr (pt, plan2, e3)"
    and g: "generate_question A (e3\<lparr>current_topic := pt\<rparr>) pt (difficulty e3)
        (intent plan2) (need_hint plan2) w1 = (Inr gen, calls', w2)"
    by (elim step_returns)
  from decide_topic_keeps(5) [OF d]
  have "asked_questions_text e3 = asked_questions_text x"
    by (simp add: streaks_keep push_user_def)
  with generate_question_result [OF g]
  have h': "avoid_questions (fst (hd calls')) = last_n 8 (asked_questions_text x)"
    by (simp add: gen_req_def)
  from c h l t h' show ?thesis by simp
qed

text \<open>The second turn of a session whose guard rejects every draft.\<close>

theorem avoid_list_witness:
  "let A = scripted [] ''Mismatch: the question is about SQL.'';
       e = fst (projr (session [] ''Mismatch: the question is about SQL.'' 1 [''one'']
                  [evaluation 60 Partial True ''problem_solving'']));
       g = generate_question A e ''tools_workflow'' Easy ''check_basics'' False [];
       s = step A ''two'' e [evaluation 60 Partial True ''tools_workflow''];
       q1 = ''Question about general_basics?'';
       q2 = ''Question about problem_solving?'';
       q3 = ''Question about tools_workflow?''
   in \<not> isl s \<and> asked_questions_text e = [q1, q2]
      \<and> map (\<lambda>c. avoid_questions (fst c)) (fst (snd g)) = [[q1, q2], [q1, q2, q3]]
      \<and> avoid_questions (fst (hd (fst (snd (snd (projr s)))))) = [q1, q2]"
proof -
  define A where "A = scripted [] ''Mismatch: the question is about SQL.''"
  define e where "e = fst (projr (session [] ''Mismatch: the question is about SQL.'' 1 [''one'']
                  [evaluation 60 Partial True ''problem_solving'']))"
  define g where "g = generate_question A e ''tools_workflow'' Easy ''check_basics'' False []"
  define s where "s = step A ''two'' e [evaluation 60 Partial True ''tools_workflow'']"
  have ns: "\<not> isl s" unfolding s_def e_def A_def by code_simp
  have es: "step A ''two'' e [evaluation 60 Partial True ''tools_workflow'']
      = Inr (fst (projr s), fst (snd (projr s)), fst (snd (snd (projr s))),
              snd (snd (snd (projr s))))"
    using step_collapse [OF ns] unfolding s_def [symmetric] .
  have eg: "generate_question A e ''tools_workflow'' Easy ''check_basics'' False []
      = (fst g, fst (snd g), snd (snd g))"
    unfolding g_def by simp
  have a: "asked_questions_text e
             = [''Question about general_basics?'', ''Question about problem_solving?'']"
    unfolding e_def by code_simp
  have m: "map (\<lambda>c. avoid_questions (fst c)) (fst (snd g))
      = [[''Question about general_basics?'', ''Question about problem_solving?''],
         [''Question about general_basics?'', ''Question about problem_solving?'',
          ''Question about tools_workflow?'']]"
    unfolding g_def e_def A_def by code_simp
  from avoid_list [OF eg es] a
  have "avoid_questions (fst (hd (fst (snd (snd (projr s))))))
          = [''Question about general_basics?'', ''Question about problem_solving?'']"
    by (simp add: last_n_def)
  with ns a m show ?thesis
    unfolding Let_def A_def [symmetric] e_def [symmetric] s_def [symmetric] g_def [symmetric]
    by simp
qed

section \<open>The regeneration loop\<close>

text \<open>
  Claim C6: with \<open>max_regen_attempts = 1\<close> and a guard that reports a mismatch for every
  draft, the generator is called twice in the turn (the first draft and one retry), the
  last draft is the one accepted, and the turn returns its visible message; and for any
  \<open>max_regen_attempts\<close> the loop ends, after at most that many retries. The collaborators
  are assumed to return: the generator and the interviewer on every call, the observer on
  the evaluation of the turn (as the guard it returns, reporting the mismatch).
\<close>

theorem bounded_regeneration:
  assumes "reachable A e"
    and "max_regen_attempts e = 1"
    and "\<forall>x topic q v. \<not> fst (topic_guard_ok A x topic q v)"
    and "\<forall>req v. \<exists>g v'. qgen A req v = (Inr g, v')"
    and "\<forall>req v. \<exists>t v'. interviewer A req v = (Inr t, v')"
    and "observer A (turn_request (push_user user_message (e\<lparr>turn_id := turn_id e + 1\<rparr>))
           user_message) w = (Inr plan, w1)"
  shows "(\<exists>visible e' calls w'.
            step A user_message e w = Inr (visible, e', calls, w')
            \<and> length calls = 2
            \<and> (\<exists>g. snd (last calls) = Inr g
                    \<and> last (asked_questions_text e') = question_text g
                    \<and> log_ideal_answer_short (last (turns (logger e'))) = ideal_answer_short g)
            \<and> last (history e') = (Assistant, visible)
            \<and> log_agent_visible_message (last (turns (logger e'))) = visible)
         \<and> length (fst (snd (generate_question B x topic d i h v)))
             \<le> 1 + nat (max_regen_attempts x)"
proof -
  let ?e1 = "push_user user_message (e\<lparr>turn_id := turn_id e + 1\<rparr>)"
  let ?e2 = "update_difficulty_by_streaks (update_streaks plan ?e1)"
  have "topic_index (state ?e2) < length (topic_plan ?e2)"
    using reachable_cursor [OF assms(1)] by (simp add: streaks_keep push_user_def)
  then obtain pt plan2 e3 where d: "decide_topic plan ?e2 = Inr (pt, plan2, e3)"
    using decide_topic_total by blast
  let ?e4 = "e3\<lparr>current_topic := pt\<rparr>"
  have m: "max_regen_attempts ?e4 = 1"
    using decide_topic_keeps(6) [OF d] assms(2) by (simp add: streaks_keep push_user_def)
  from assms(3) have guard: "\<forall>q v. \<not> fst (topic_guard_ok A ?e4 pt q v)" by blast
  from generate_question_exhaust [OF assms(4) guard] m
  obtain gen calls w2 where
    g: "generate_question A ?e4 pt (difficulty ?e4) (intent plan2) (need_hint plan2) w1
          = (Inr gen, calls, w2)"
    and n: "length calls = 2"
    by fastforce
  from generate_question_result [OF g] have l: "snd (last calls) = Inr gen" by simp
  from assms(5) obtain visible w3 where
    v: "interviewer A
          \<lparr>r_history = history e3, r_observer_plan = plan2, r_last_user = user_message,
           r_question_text = question_text gen, r_hint = hint gen\<rparr> w2 = (Inr visible, w3)"
    by blast
  define e' where "e' = e3\<lparr>current_topic := pt,
             asked_questions_text := asked_questions_text e3 @ [question_text gen],
             asked_topics := asked_topics e3 @ [pt],
             history := history e3 @ [(Assistant, visible)],
             logger := add_turn
                         \<lparr>log_turn_id = turn_id e3, log_topic = pt,
                          log_difficulty = difficulty e3, log_score_0_100 = score_0_100 plan2,
                          log_ideal_answer_short = ideal_answer_short gen,
                          log_agent_visible_message = visible, log_user_message = user_message,
                          log_internal_thoughts = internal_log pt plan2 (difficulty e3)\<rparr>
                         (logger e3),
             state := (state e3)\<lparr>last_topic := Some pt,
                                 last_intent := Some (intent plan2)\<rparr>\<rparr>"
  have s: "step A user_message e w = Inr (visible, e', calls, w3)"
    using assms(6) d g v
    by (simp add: step_def Let_def push_assistant_def e'_def)
  have f: "last (asked_questions_text e') = question_text gen"
    "log_ideal_answer_short (last (turns (logger e'))) = ideal_answer_short gen"
    "last (history e') = (Assistant, visible)"
    "log_agent_visible_message (last (turns (logger e'))) = visible"
    by (simp_all add: e'_def add_turn_def)
  from s n l f generate_question_bound [of B x topic d i h v] show ?thesis by blast
qed

text \<open>
  A turn of a session whose observer, asked as guard, always notes a mismatch: two calls
  of the generator, the second one marked as a retry, and a visible message.
\<close>

theorem bounded_regeneration_witness:
  "let A = scripted [] ''Mismatch: the question is about SQL.'';
       e = fst (projr (session [] ''Mismatch: the question is about SQL.'' 1 [] []));
       ev = evaluation 60 Partial False [];
       s = step A ''one'' e [ev];
       calls = fst (snd (snd (projr s)))
   in reachable A e \<and> max_regen_attempts e = 1
      \<and> \<not> fst (topic_guard_ok A e ''general_basics'' ''Question about general_basics?'' [])
      \<and> observer A (turn_request (push_user ''one'' (e\<lparr>turn_id := turn_id e + 1\<rparr>)) ''one'') [ev]
          = (Inr ev, [])
      \<and> \<not> isl s \<and> length calls = 2
      \<and> map (\<lambda>c. g_intent (fst c)) calls
          = [''check_basics'', ''check_basics_REGEN_TOPIC_MISMATCH'']
      \<and> fst (projr s) = ''I see. Question about general_basics?''"
proof -
  define A where "A = scripted [] ''Mismatch: the question is about SQL.''"
  define e where
    "e = fst (projr (session [] ''Mismatch: the question is about SQL.'' 1 [] []))"
  define ev where "ev = evaluation 60 Partial False []"
  define s where "s = step A ''one'' e [ev]"
  have "\<not> isl (session [] ''Mismatch: the question is about SQL.'' 1 [] [])" by code_simp
  then have r: "reachable A e" unfolding A_def e_def by (rule session_reachable)
  have m: "max_regen_attempts e = 1" unfolding e_def by code_simp
  have low: "contains_str ''mismatch'' (lower ''Mismatch: the question is about SQL.'')"
    by code_simp
  have guard: "\<forall>x topic q v. \<not> fst (topic_guard_ok A x topic q v)"
    unfolding A_def using scripted_guard_rejects [OF low] by blast
  have gen: "\<forall>req v. \<exists>g v'. qgen A req v = (Inr g, v')"
    by (simp add: A_def scripted_def)
  have ren: "\<forall>req v. \<exists>t v'. interviewer A req v = (Inr t, v')"
    by (simp add: A_def scripted_def)
  have o: "observer A (turn_request (push_user ''one'' (e\<lparr>turn_id := turn_id e + 1\<rparr>)) ''one'')
             [ev] = (Inr ev, [])"
    by (simp add: A_def scripted_def turn_request_def)
  from bounded_regeneration [OF r m guard gen ren o, THEN conjunct1]
  obtain visible e' calls w' where
    st: "step A ''one'' e [ev] = Inr (visible, e', calls, w')" and n: "length calls = 2"
    by blast
  from st have ns: "\<not> isl s" and c: "fst (snd (snd (projr s))) = calls"
    by (simp_all add: s_def)
  have vals: "map (\<lambda>c. g_intent (fst c)) (fst (snd (snd (projr s))))
                = [''check_basics'', ''check_basics_REGEN_TOPIC_MISMATCH'']
              \<and> fst (projr s) = ''I see. Question about general_basics?''"
    unfolding s_def e_def A_def ev_def by code_simp
  from guard have g1:
    "\<not> fst (topic_guard_ok A e ''general_basics'' ''Question about general_basics?'' [])"
    by blast
  from r m g1 o ns n c vals show ?thesis
    unfolding Let_def A_def [symmetric] e_def [symmetric] ev_def [symmetric] s_def [symmetric]
    by simp
qed

section \<open>A recommended topic outside the plan\<close>

text \<open>
  Claim C7: on a turn whose evaluation \<open>plan\<close> says to move on and recommends a topic that
  is not in the plan, the engine does not adopt that topic: it commits the plan topic one
  position after the cursor, clamped at the last topic, the plan is left as it was (no
  wrap, no extension), and the committed topic is the plan topic at the new cursor. A
  topic plan names every topic once (the data model of the specification); for such a
  plan the cursor has advanced by exactly one position, clamped at the last topic.
  \<open>step\<close> takes the new cursor from \<open>topic_plan.index\<close> of the committed topic, which
  is where uniqueness is used.
\<close>

theorem out_of_plan_advance:
  assumes "step A user_message e w = Inr (visible, e', calls, w')"
    and "observer A (turn_request (push_user user_message (e\<lparr>turn_id := turn_id e + 1\<rparr>))
           user_message) w = (Inr plan, w1)"
    and "should_move_on plan" and "next_topic plan \<notin> set (topic_plan e)"
  shows "topic_index (state e) < length (topic_plan e)
         \<and> current_topic e'
             = topic_plan e ! min (topic_index (state e) + 1) (length (topic_plan e) - 1)
         \<and> current_topic e' \<noteq> next_topic plan
         \<and> topic_plan e' = topic_plan e
         \<and> topic_index (state e') < length (topic_plan e')
         \<and> current_topic e' = topic_plan e' ! topic_index (state e')
         \<and> (distinct (topic_plan e) \<longrightarrow>
              topic_index (state e') = min (topic_index (state e) + 1) (length (topic_plan e) - 1))"
proof -
  let ?e1 = "push_user user_message (e\<lparr>turn_id := turn_id e + 1\<rparr>)"
  let ?e2 = "update_difficulty_by_streaks (update_streaks plan ?e1)"
  let ?j = "min (topic_index (state e) + 1) (length (topic_plan e) - 1)"
  from assms(1) obtain plan' w1' pt plan2 e3 gen w2 where
    o: "observer A (turn_request ?e1 user_message) w = (Inr plan', w1')"
    and d': "decide_topic plan' (update_difficulty_by_streaks (update_streaks plan' ?e1))
               = Inr (pt, plan2, e3)"
    and e': "topic_plan e' = topic_plan e3" "current_topic e' = pt"
       "topic_index (state e') = topic_index (state e3)"
    by (elim step_returns) simp
  from o assms(2) have "plan' = plan" by simp
  with d' have d: "decide_topic plan ?e2 = Inr (pt, plan2, e3)" by simp
  have f: "topic_plan ?e2 = topic_plan e" "topic_index (state ?e2) = topic_index (state e)"
    by (simp_all add: streaks_keep push_user_def)
  have tp: "topic_plan e3 = topic_plan e"
    using decide_topic_keeps(1) [OF d] f by simp
  from decide_topic_move(5) [OF d assms(3)] assms(4) f
  have lt: "topic_index (state e) < length (topic_plan e)" and pt: "pt = topic_plan e ! ?j"
    by simp_all
  from lt have j: "?j < length (topic_plan e)" by simp
  then have "pt \<in> set (topic_plan e)" using pt by simp
  with assms(4) have ne: "pt \<noteq> next_topic plan" by auto
  from decide_topic_move(1) [OF d assms(3)] f
  have ix: "index_of (topic_plan e) pt = Some (topic_index (state e3))" by simp
  from index_of_Some [OF ix]
  have at: "topic_index (state e3) < length (topic_plan e)"
    "topic_plan e ! topic_index (state e3) = pt" by simp_all
  have "topic_index (state e3) = ?j" if "distinct (topic_plan e)"
    using index_of_distinct [OF that j] ix pt by simp
  with lt pt ne tp e' at show ?thesis by simp
qed

text \<open>With the plan a, b, c the cursor goes from 0 to 1 and the topic b is committed.\<close>

theorem out_of_plan_advance_witness:
  "let A = scripted [''a'', ''b'', ''c''] [];
       e = fst (projr (session [''a'', ''b'', ''c''] [] 1 [] []));
       ev = evaluation 60 Partial True ''zzz'';
       s = step A ''first answer'' e [ev];
       e' = fst (snd (projr s))
   in \<not> isl s
      \<and> observer A (turn_request (push_user ''first answer'' (e\<lparr>turn_id := turn_id e + 1\<rparr>))
           ''first answer'') [ev] = (Inr ev, [])
      \<and> should_move_on ev \<and> next_topic ev \<notin> set (topic_plan e)
      \<and> distinct (topic_plan e) \<and> topic_index (state e) = 0
      \<and> topic_index (state e') = 1 \<and> current_topic e' = ''b''
      \<and> current_topic e' = topic_plan e' ! topic_index (state e')"
proof -
  define A where "A = scripted [''a'', ''b'', ''c''] []"
  define e where "e = fst (projr (session [''a'', ''b'', ''c''] [] 1 [] []))"
  define ev where "ev = evaluation 60 Partial True ''zzz''"
  define s where "s = step A ''first answer'' e [ev]"
  have tp: "topic_plan e = [''a'', ''b'', ''c'']" unfolding e_def by code_simp
  have ix: "topic_index (state e) = 0" unfolding e_def by code_simp
  have ns: "\<not> isl s" unfolding s_def e_def A_def ev_def by code_simp
  have es: "step A ''first answer'' e [ev]
      = Inr (fst (projr s), fst (snd (projr s)), fst (snd (snd (projr s))),
              snd (snd (snd (projr s))))"
    using step_collapse [OF ns] unfolding s_def [symmetric] .
  have o: "observer A (turn_request (push_user ''first answer'' (e\<lparr>turn_id := turn_id e + 1\<rparr>))
           ''first answer'') [ev] = (Inr ev, [])"
    by (simp add: A_def scripted_def turn_request_def)
  have mv: "should_move_on ev" "next_topic ev \<notin> set (topic_plan e)"
    by (simp_all add: tp ev_def evaluation_def)
  have di: "distinct (topic_plan e)" by (simp add: tp)
  from out_of_plan_advance [OF es o mv] di tp ix
  have "topic_index (state (fst (snd (projr s)))) = 1"
    and "current_topic (fst (snd (projr s))) = ''b''"
    and "current_topic (fst (snd (projr s)))
           = topic_plan (fst (snd (projr s))) ! topic_index (state (fst (snd (projr s))))"
    by simp_all
  with ns o mv di ix show ?thesis
    unfolding Let_def A_def [symmetric] e_def [symmetric] ev_def [symmetric] s_def [symmetric]
    by simp
qed

section \<open>Construction of a session\<close>

text \<open>
  Claim C8: when planning fails (the reply of the model does not parse or does not
  validate) the planner returns the default plan of three topics, and when the planner
  returns an empty plan the constructor takes the default plan; the first topic is the
  first entry of the plan, at offset 0, the difficulty is easy, and one warm-up question is
  generated for that topic (without a hint) and appended to the history after the greeting,
  both as messages of the assistant: the constructor takes no message of the user, and
  the history and the log hold none. The planner and the generator are assumed to return.
\<close>

theorem construction_warm_up:
  assumes "planner A \<lparr>p_position = pos, p_grade = gr, p_experience = ex, p_lang = lg\<rparr> w
             = (Inr plan, w1)"
    and "\<forall>req v. \<exists>g v'. qgen A req v = (Inr g, v')"
  shows "(\<exists>e calls w' first_q.
            engine_init A pos gr ex nm lg mr w = Inr (e, calls, w')
            \<and> topic_plan e = (if topics plan = [] then default_topics else topics plan)
            \<and> current_topic e = hd (topic_plan e) \<and> topic_index (state e) = 0
            \<and> difficulty e = Easy
            \<and> snd (last calls) = Inr first_q
            \<and> g_intent (fst (hd calls)) = ''warmup''
            \<and> (\<forall>c \<in> set calls. g_topic (fst c) = hd (topic_plan e)
                   \<and> g_difficulty (fst c) = Easy \<and> \<not> g_need_hint (fst c))
            \<and> history e = [(Assistant, build_interviewer_intro pos gr ex),
                            (Assistant, question_text first_q)]
            \<and> get_all_assistant_messages e
                = [build_interviewer_intro pos gr ex, question_text first_q]
            \<and> asked_questions_text e = [question_text first_q]
            \<and> turn_id e = 0 \<and> turns (logger e) = [])
         \<and> (\<forall>err. load_and_validate json_loads validate raw = Inl err
               \<longrightarrow> topics (build_plan json_loads validate raw) = default_topics)
         \<and> (\<forall>p. load_and_validate json_loads validate raw = Inr p
               \<longrightarrow> topics (build_plan json_loads validate raw)
                     = (if topics p = [] then default_topics else topics p))
         \<and> default_topics = [''general_basics'', ''problem_solving'', ''tools_workflow'']"
proof -
  define tp where "tp = (if topics plan = [] then default_topics else topics plan)"
  have "tp \<noteq> []" by (simp add: tp_def default_topics_def)
  then obtain t0 rest where tp: "tp = t0 # rest" by (cases tp) simp_all
  define e1 where "e1 =
    \<lparr>position = pos, target_grade = gr, experience = ex, participant_name = nm, lang = lg,
     max_regen_attempts = mr,
     logger = \<lparr>logger_participant_name = nm, turns = [], final_feedback = None\<rparr>,
     turn_id = 0, history = [(Assistant, build_interviewer_intro pos gr ex)],
     state = \<lparr>last_topic = None, last_intent = None, topic_index = 0,
              streak_good = 0, streak_poor = 0\<rparr>,
     topic_plan = t0 # rest, current_topic = t0, difficulty = Easy,
     asked_questions_text = [], asked_topics = []\<rparr>"
  have e1f: "asked_questions_text e1 = []" "asked_topics e1 = []" "current_topic e1 = t0"
    "history e1 = [(Assistant, build_interviewer_intro pos gr ex)]" "difficulty e1 = Easy"
    by (simp_all add: e1_def)
  from generate_question_total [OF assms(2)]
  obtain first_q calls w' where
    g: "generate_question A e1 t0 Easy ''warmup'' False w1 = (Inr first_q, calls, w')"
    by blast
  define e where "e = e1\<lparr>asked_questions_text := [question_text first_q],
      asked_topics := [t0],
      history := [(Assistant, build_interviewer_intro pos gr ex),
                  (Assistant, question_text first_q)]\<rparr>"
  have i: "engine_init A pos gr ex nm lg mr w = Inr (e, calls, w')"
    using assms(1) tp g
    by (simp add: engine_init_def tp_def [symmetric] push_assistant_def e1_def [symmetric]
                  e1f e_def)
  have f: "topic_plan e = tp" "current_topic e = hd (topic_plan e)"
    "topic_index (state e) = 0" "difficulty e = Easy"
    "history e = [(Assistant, build_interviewer_intro pos gr ex),
                  (Assistant, question_text first_q)]"
    "asked_questions_text e = [question_text first_q]" "turn_id e = 0" "turns (logger e) = []"
    by (simp_all add: e_def e1_def tp)
  from f(5) have a: "get_all_assistant_messages e
                       = [build_interviewer_intro pos gr ex, question_text first_q]"
    by (simp add: get_all_assistant_messages_def)
  from generate_question_result [OF g]
  have l: "snd (last calls) = Inr first_q" "g_intent (fst (hd calls)) = ''warmup''"
    by (simp_all add: gen_req_def)
  from generate_question_fields [OF g] f(1) tp
  have c: "\<forall>c \<in> set calls. g_topic (fst c) = hd (topic_plan e)
             \<and> g_difficulty (fst c) = Easy \<and> \<not> g_need_hint (fst c)"
    by simp
  have first: "\<exists>e calls w' first_q.
            engine_init A pos gr ex nm lg mr w = Inr (e, calls, w')
            \<and> topic_plan e = (if topics plan = [] then default_topics else topics plan)
            \<and> current_topic e = hd (topic_plan e) \<and> topic_index (state e) = 0
            \<and> difficulty e = Easy
            \<and> snd (last calls) = Inr first_q
            \<and> g_intent (fst (hd calls)) = ''warmup''
            \<and> (\<forall>c \<in> set calls. g_topic (fst c) = hd (topic_plan e)
                   \<and> g_difficulty (fst c) = Easy \<and> \<not> g_need_hint (fst c))
            \<and> history e = [(Assistant, build_interviewer_intro pos gr ex),
                            (Assistant, question_text first_q)]
            \<and> get_all_assistant_messages e
                = [build_interviewer_intro pos gr ex, question_text first_q]
            \<and> asked_questions_text e = [question_text first_q]
            \<and> turn_id e = 0 \<and> turns (logger e) = []"
    using i f a l c unfolding tp_def by blast
  have second: "\<forall>err. load_and_validate json_loads validate raw = Inl err
               \<longrightarrow> topics (build_plan json_loads validate raw) = default_topics"
    and third: "\<forall>p. load_and_validate json_loads validate raw = Inr p
               \<longrightarrow> topics (build_plan json_loads validate raw)
                     = (if topics p = [] then default_topics else topics p)"
    by (simp_all add: build_plan_def)
  from first second third show ?thesis by (simp add: default_topics_def)
qed

text \<open>
  The scripted planner returns an empty plan; and a reply in plain words, which the
  parser (standing for \<open>json.loads\<close> on texts that are not JSON) rejects.
\<close>

theorem construction_warm_up_witness:
  "let A = scripted [] [];
       i = engine_init A ''Backend Developer'' ''Junior'' ''Python basics'' ''Candidate''
             ''ru'' 1 [];
       e = fst (projr i);
       json_loads = (\<lambda>s. None :: unit option);
       validate = (\<lambda>data. None :: TopicPlan option)
   in planner A \<lparr>p_position = ''Backend Developer'', p_grade = ''Junior'',
                  p_experience = ''Python basics'', p_lang = ''ru''\<rparr> []
        = (Inr \<lparr>topics = []\<rparr>, [])
      \<and> \<not> isl i
      \<and> topic_plan e = [''general_basics'', ''problem_solving'', ''tools_workflow'']
      \<and> current_topic e = ''general_basics'' \<and> difficulty e = Easy
      \<and> get_all_assistant_messages e
          = [build_interviewer_intro ''Backend Developer'' ''Junior'' ''Python basics'',
             ''Question about general_basics?'']
      \<and> load_and_validate json_loads validate ''I have no plan.'' = Inl JSONDecodeError
      \<and> topics (build_plan json_loads validate ''I have no plan.'')
          = [''general_basics'', ''problem_solving'', ''tools_workflow'']"
proof -
  define A where "A = scripted [] []"
  define i where "i = engine_init A ''Backend Developer'' ''Junior'' ''Python basics''
    ''Candidate'' ''ru'' 1 []"
  define json_loads where "json_loads = (\<lambda>s :: string. None :: unit option)"
  define validate where "validate = (\<lambda>data :: unit. None :: TopicPlan option)"
  have p: "planner A \<lparr>p_position = ''Backend Developer'', p_grade = ''Junior'',
                  p_experience = ''Python basics'', p_lang = ''ru''\<rparr> []
        = (Inr \<lparr>topics = []\<rparr>, [])"
    by (simp add: A_def scripted_def)
  have q: "\<forall>req v. \<exists>g v'. qgen A req v = (Inr g, v')"
    by (simp add: A_def scripted_def)
  have lv: "load_and_validate json_loads validate ''I have no plan.'' = Inl JSONDecodeError"
    by (simp add: load_and_validate_def json_loads_def safe_json_load_no_brace)
  note t = construction_warm_up [OF p q, where nm = "''Candidate''" and mr = 1
             and json_loads = json_loads and validate = validate and raw = "''I have no plan.''"]
  from t obtain e calls w' first_q where
    ei: "engine_init A ''Backend Developer'' ''Junior'' ''Python basics'' ''Candidate''
           ''ru'' 1 [] = Inr (e, calls, w')"
    and tp: "topic_plan e = default_topics" and ct: "current_topic e = hd (topic_plan e)"
    and d: "difficulty e = Easy"
    by auto
  from ei have ni: "\<not> isl i" and e: "fst (projr i) = e" by (simp_all add: i_def)
  from t lv have bp: "topics (build_plan json_loads validate ''I have no plan.'')
      = [''general_basics'', ''problem_solving'', ''tools_workflow'']"
    by simp
  have m: "get_all_assistant_messages (fst (projr i))
          = [build_interviewer_intro ''Backend Developer'' ''Junior'' ''Python basics'',
             ''Question about general_basics?'']"
    unfolding i_def A_def by code_simp
  from p ni e tp ct d m lv bp show ?thesis
    unfolding Let_def A_def [symmetric] i_def [symmetric] json_loads_def [symmetric]
      validate_def [symmetric]
    by (simp add: default_topics_def)
qed

section \<open>The streak counters\<close>

text \<open>
  Claim C9 says that at every reachable state of a session exactly one of \<open>streak_good\<close>
  and \<open>streak_poor\<close> is non-zero. The constructor sets both to zero, so the state of a
  session that has just been constructed is reachable and has no non-zero streak.
\<close>

theorem streaks_exactly_one_counterexample:
  "\<not> isl (session [] [] 1 [] [])
   \<and> reachable (scripted [] []) (fst (projr (session [] [] 1 [] [])))
   \<and> streak_good (state (fst (projr (session [] [] 1 [] [])))) = 0
   \<and> streak_poor (state (fst (projr (session [] [] 1 [] [])))) = 0"
proof -
  have n: "\<not> isl (session [] [] 1 [] [])" by code_simp
  then have "reachable (scripted [] []) (fst (projr (session [] [] 1 [] [])))"
    by (rule session_reachable)
  moreover note n
  moreover have "streak_good (state (fst (projr (session [] [] 1 [] [])))) = 0" by code_simp
  moreover have "streak_poor (state (fst (projr (session [] [] 1 [] [])))) = 0" by code_simp
  ultimately show ?thesis by simp
qed

text \<open>
  Claim C9 as amended: at every reachable state of a session at most one of
  \<open>streak_good\<close> and \<open>streak_poor\<close> is non-zero.
\<close>

theorem streaks_not_both_nonzero:
  assumes "reachable A e"
  shows "streak_good (state e) = 0 \<or> streak_poor (state e) = 0"
  using reachable_streaks [OF assms] by simp

text \<open>After one strong answer the good streak is 1 and the poor streak is 0.\<close>

theorem streaks_not_both_nonzero_witness:
  "reachable (scripted [] [])
     (fst (projr (session [] [] 1 [''a list is mutable''] [evaluation 80 Good False []])))
   \<and> streak_good (state (fst (projr
        (session [] [] 1 [''a list is mutable''] [evaluation 80 Good False []])))) = 1
   \<and> streak_poor (state (fst (projr
        (session [] [] 1 [''a list is mutable''] [evaluation 80 Good False []])))) = 0"
proof -
  have "\<not> isl (session [] [] 1 [''a list is mutable''] [evaluation 80 Good False []])"
    by code_simp
  then have r: "reachable (scripted [] [])
     (fst (projr (session [] [] 1 [''a list is mutable''] [evaluation 80 Good False []])))"
    by (rule session_reachable)
  have g: "streak_good (state (fst (projr
        (session [] [] 1 [''a list is mutable''] [evaluation 80 Good False []])))) = 1"
    by code_simp
  from streaks_not_both_nonzero [OF r] g r show ?thesis by simp
qed

section \<open>History and log\<close>

text \<open>
  Claim C10: every call of \<open>step\<close> appends one user message and then one assistant
  message to the history and one record to the log, whose \<open>turn_id\<close> is one more than
  the number of records logged before, and leaves the earlier entries as they were; after
  \<open>n\<close> steps the log holds \<open>n\<close> records in the order of the turns. Stated for the
  calls that return: \<open>e\<close> is the engine after the constructor and the turns for the
  messages \<open>ms\<close>, and \<open>e'\<close> the engine after one more turn.
\<close>

theorem step_appends_one_turn:
  assumes "engine_init A pos gr ex nm lg mr w0 = Inr (e0, calls0, w1)"
    and "run_steps A ms e0 w1 = Inr (e, w2)"
    and "step A user_message e w = Inr (visible, e', calls, w')"
  shows "history e' = history e @ [(User, user_message), (Assistant, visible)]
         \<and> (\<exists>t. turns (logger e') = turns (logger e) @ [t]
                 \<and> log_turn_id t = length (turns (logger e)) + 1
                 \<and> log_user_message t = user_message
                 \<and> log_agent_visible_message t = visible)
         \<and> length (turns (logger e)) = length ms
         \<and> map log_turn_id (turns (logger e)) = [1..<Suc (length ms)]
         \<and> map log_user_message (turns (logger e)) = ms"
proof -
  have r: "reachable A e"
    using run_steps_reachable [OF reachable.init [OF assms(1)] assms(2)] .
  have t0: "turn_id e0 = 0" "turns (logger e0) = []"
    using assms(1) by (elim engine_init_returns; simp)+
  from run_steps_log [OF assms(2)] t0
  have n: "turn_id e = length ms" "map log_user_message (turns (logger e)) = ms" by simp_all
  from reachable_turn_ids [OF r] n
  have ids: "map log_turn_id (turns (logger e)) = [1..<Suc (length ms)]" by simp
  from n(2) have len: "length (turns (logger e)) = length ms" by (metis length_map)
  from step_appends(1,3) [OF assms(3)] n len ids show ?thesis by auto
qed

text \<open>A session of two turns with the scripted collaborators.\<close>

theorem step_appends_one_turn_witness:
  "let A = scripted [] [];
       i = engine_init A ''Backend Developer'' ''Junior'' ''Python basics'' ''Candidate''
             ''ru'' 1 [evaluation 80 Good False []];
       e0 = fst (projr i);
       r = run_steps A [''a list is mutable''] e0 (snd (snd (projr i)));
       e = fst (projr r);
       s = step A ''a tuple is not'' e [evaluation 60 Partial False []];
       e' = fst (snd (projr s))
   in \<not> isl i \<and> \<not> isl r \<and> \<not> isl s
      \<and> history e' = history e @ [(User, ''a tuple is not''), (Assistant, fst (projr s))]
      \<and> map log_turn_id (turns (logger e')) = [1, 2]
      \<and> map log_user_message (turns (logger e')) = [''a list is mutable'', ''a tuple is not'']"
proof -
  define A where "A = scripted [] []"
  define i where "i = engine_init A ''Backend Developer'' ''Junior'' ''Python basics''
    ''Candidate'' ''ru'' 1 [evaluation 80 Good False []]"
  define r where "r = run_steps A [''a list is mutable''] (fst (projr i)) (snd (snd (projr i)))"
  define s where "s = step A ''a tuple is not'' (fst (projr r)) [evaluation 60 Partial False []]"
  have ni: "\<not> isl i" unfolding i_def A_def by code_simp
  have nr: "\<not> isl r" unfolding r_def i_def A_def by code_simp
  have ns: "\<not> isl s" unfolding s_def r_def i_def A_def by code_simp
  have ei: "engine_init A ''Backend Developer'' ''Junior'' ''Python basics''
    ''Candidate'' ''ru'' 1 [evaluation 80 Good False []]
      = Inr (fst (projr i), fst (snd (projr i)), snd (snd (projr i)))"
    using ni unfolding i_def [symmetric] by (cases i) auto
  have er: "run_steps A [''a list is mutable''] (fst (projr i)) (snd (snd (projr i)))
      = Inr (fst (projr r), snd (projr r))"
    using session_collapse [OF nr] unfolding r_def [symmetric] .
  have es: "step A ''a tuple is not'' (fst (projr r)) [evaluation 60 Partial False []]
      = Inr (fst (projr s), fst (snd (projr s)), fst (snd (snd (projr s))),
              snd (snd (snd (projr s))))"
    using step_collapse [OF ns] unfolding s_def [symmetric] .
  note t = step_appends_one_turn [OF ei er es]
  have ids: "map log_turn_id (turns (logger (fst (snd (projr s))))) = [1, 2]"
    unfolding s_def r_def i_def A_def by code_simp
  have ms: "map log_user_message (turns (logger (fst (snd (projr s)))))
      = [''a list is mutable'', ''a tuple is not'']"
    unfolding s_def r_def i_def A_def by code_simp
  from t ni nr ns ids ms show ?thesis
    unfolding Let_def A_def [symmetric] i_def [symmetric] r_def [symmetric] s_def [symmetric]
    by simp
qed

end
